theory Spec2Isabelle
  imports Complex_Main "HOL-Library.AList" "HOL-Library.Log_Nat"
begin

section \<open>Data model\<close>

text \<open>
  The repository is a Node/Mongoose backend. Its accrual engine lives in
  \<^verbatim>\<open>services/emiCalculator\<close> (\<^verbatim>\<open>generateEMISchedule\<close>,
  \<^verbatim>\<open>processOverdueEMIs\<close>), in the admin routes (\<^verbatim>\<open>mark-paid\<close>,
  \<^verbatim>\<open>clear-overdue\<close>) and in \<^verbatim>\<open>scripts/fix-overdues.js\<close> (\<^verbatim>\<open>run\<close>).

  Conventions of the embedding:
  \<^item> Money is \<open>int\<close> (integer currency units). JavaScript evaluates
    \<^verbatim>\<open>loan.amount * 0.20\<close> and the quotients under \<^verbatim>\<open>Math.ceil\<close> in IEEE doubles;
    here they are exact rationals, with \<^verbatim>\<open>Math.ceil\<close> the ceiling of a rational. The
    section on double precision shows that both give the same instalments for every
    amount from 0 up to \<open>2 ^ 50\<close>.
  \<^item> A \<^verbatim>\<open>Date\<close> is the number of milliseconds on the local clock, for a zone with a
    fixed offset (every local day has \<open>24 * 60 * 60 * 1000\<close> ms), so that
    \<^verbatim>\<open>setHours(0, 0, 0, 0)\<close> rounds down to a multiple of one day and
    \<^verbatim>\<open>setDate(getDate() + k)\<close> adds \<open>k\<close> days.
  \<^item> A collection is a list and the \<^verbatim>\<open>_id\<close> of a document is its position, so two
    documents never share an id. \<^verbatim>\<open>save\<close> overwrites the position.
  \<^item> Notifications, console output and the HTTP plumbing are left out: they neither read
    nor write the two collections. Store I/O does not fail; the one failure kept is the
    ValidationError of a schema, in the validated operations of the schedule generator.
\<close>

datatype emi_status = Pending | Overdue | Paid

datatype loan_status = LoanPending | LoanApproved | LoanRejected | LoanCompleted

type_synonym date = int

text \<open>
  Modelled from the spec: the Mongoose schemas \<^verbatim>\<open>models/EMI\<close> and \<^verbatim>\<open>models/Loan\<close> are
  not among the sources. The two records hold the fields of section 3 of the spec that the
  sources read or write, under the names the sources use; \<^verbatim>\<open>razorpayPaymentId\<close> keeps the
  admin id and the time from which the route prints its string.
\<close>

record emi =
  loanId :: nat
  userId :: nat
  dayNumber :: int
  principalAmount :: int
  interestAmount :: int
  penaltyAmount :: int
  totalAmount :: int
  dueDate :: date
  status :: emi_status
  paymentRequested :: bool
  requestCanceled :: bool
  paidViaRequest :: bool
  paidAt :: "date option"
  razorpayPaymentId :: "(nat \<times> date) option"

record loan =
  userId :: nat
  amount :: int
  totalDays :: int
  interestRate :: int
  status :: loan_status
  startDate :: "date option"
  endDate :: "date option"
  approvedAt :: "date option"
  totalPaid :: int
  remainingBalance :: int
  penaltyAmount :: int

record store =
  emis :: "emi list"
  loans :: "loan list"

datatype response = Ok200 string | Err400 string | Err404 string

datatype error = TypeError | ValidationError

section \<open>Dates and rounding\<close>

definition msPerDay :: int where
  "msPerDay = 24 * 60 * 60 * 1000"

text \<open>\<^verbatim>\<open>d.setHours(0, 0, 0, 0)\<close>\<close>

definition setHours0 :: "date \<Rightarrow> date" where
  "setHours0 t = t - t mod msPerDay"

text \<open>\<^verbatim>\<open>d.setDate(d.getDate() + k)\<close>\<close>

definition addDays :: "date \<Rightarrow> int \<Rightarrow> date" where
  "addDays t k = t + k * msPerDay"

definition Math_ceil :: "rat \<Rightarrow> int" where
  "Math_ceil x = \<lceil>x\<rceil>"

text \<open>
  JavaScript numbers. A double has a 53-bit significand and every arithmetic operation
  returns the double nearest to the exact result, ties going to the even significand.
  \<open>binade x\<close> is the exponent \<open>e\<close> with \<open>2 ^ e \<le> x < 2 ^ (e + 1)\<close>, \<open>roundEven\<close> rounds to the
  nearest integer with ties to even, and \<open>fl x\<close> is \<open>x\<close> rounded to 53 significant bits. The
  exponent is unbounded here: overflow and subnormal numbers, which start at \<open>2 ^ 1024\<close> and
  below \<open>2 ^ - 1022\<close>, are out of reach of the amounts and day counts of a loan.
\<close>

definition binade :: "rat \<Rightarrow> int" where
  "binade x = (let (p, q) = quotient_of x; e0 = bitlen p - bitlen q
               in if 2 powi e0 \<le> x then e0 else e0 - 1)"

definition roundEven :: "rat \<Rightarrow> int" where
  "roundEven y = (let f = \<lfloor>y\<rfloor>; d = y - of_int f
                  in if d < 1 / 2 then f else if 1 / 2 < d then f + 1
                     else if even f then f else f + 1)"

definition fl :: "rat \<Rightarrow> rat" where
  "fl x = (if x = 0 then 0
           else let u = 2 powi (binade \<bar>x\<bar> - 52)
                in sgn x * (of_int (roundEven (\<bar>x\<bar> / u)) * u))"

text \<open>
  The two quotients of \<^verbatim>\<open>generateEMISchedule\<close> as JavaScript evaluates them:
  \<^verbatim>\<open>Math.ceil(loan.amount / loan.totalDays)\<close> rounds once, and
  \<^verbatim>\<open>Math.ceil((loan.amount * 0.20) / loan.totalDays)\<close> rounds the literal, the product and the
  quotient.
\<close>

definition dailyPrincipal_double :: "int \<Rightarrow> int \<Rightarrow> int" where
  "dailyPrincipal_double a n = Math_ceil (fl (of_int a / of_int n))"

definition dailyInterest_double :: "int \<Rightarrow> int \<Rightarrow> int" where
  "dailyInterest_double a n = Math_ceil (fl (fl (of_int a * fl (20 / 100)) / of_int n))"

section \<open>The two collections\<close>

text \<open>
  Modelled from the spec: the validators of the two schemas are not among the sources either.
  The collections are the plain key-indexed stores of section 6 of the spec:
  \<^verbatim>\<open>insertMany\<close> and \<^verbatim>\<open>save\<close> store what they are given. Where a property depends on
  what the schemas reject, the operations \<open>EMI_insertMany_validated\<close> and
  \<open>Loan_save_validated\<close> below take the validators as parameters.
\<close>

definition EMI_findById :: "nat \<Rightarrow> store \<Rightarrow> emi option" where
  "EMI_findById i s = (if i < length (emis s) then Some (emis s ! i) else None)"

definition EMI_save :: "nat \<Rightarrow> emi \<Rightarrow> store \<Rightarrow> store" where
  "EMI_save i e s = s\<lparr>emis := (emis s)[i := e]\<rparr>"

text \<open>\<^verbatim>\<open>EMI.find(query)\<close>: the matching documents with their ids, as loaded.\<close>

definition EMI_find :: "(emi \<Rightarrow> bool) \<Rightarrow> store \<Rightarrow> (nat \<times> emi) list" where
  "EMI_find P s = filter (\<lambda>ie. P (snd ie)) (enumerate 0 (emis s))"

definition EMI_insertMany :: "emi list \<Rightarrow> store \<Rightarrow> store" where
  "EMI_insertMany es s = s\<lparr>emis := emis s @ es\<rparr>"

text \<open>
  \<^verbatim>\<open>EMI.insertMany(docs)\<close> with the validator \<open>vE\<close> of the EMI schema as a parameter:
  Mongoose validates every document first and sends the batch only when all of them pass;
  otherwise the call rejects with a ValidationError and nothing is inserted.
\<close>

definition EMI_insertMany_validated :: "(emi \<Rightarrow> bool) \<Rightarrow> emi list \<Rightarrow> store \<Rightarrow> error + store" where
  "EMI_insertMany_validated vE es s =
     (if list_all vE es then Inr (EMI_insertMany es s) else Inl ValidationError)"

definition EMI_countDocuments :: "(emi \<Rightarrow> bool) \<Rightarrow> store \<Rightarrow> nat" where
  "EMI_countDocuments P s = length (filter P (emis s))"

definition Loan_findById :: "nat \<Rightarrow> store \<Rightarrow> loan option" where
  "Loan_findById i s = (if i < length (loans s) then Some (loans s ! i) else None)"

definition Loan_save :: "nat \<Rightarrow> loan \<Rightarrow> store \<Rightarrow> store" where
  "Loan_save i l s = s\<lparr>loans := (loans s)[i := l]\<rparr>"

text \<open>
  \<^verbatim>\<open>loan.save()\<close> with the validator \<open>vL\<close> of the loan schema as a parameter: \<open>vL l\<close> is
  the verdict of the schema on the document as it is saved. A rejected document is not
  written and the call rejects with a ValidationError.
\<close>

definition Loan_save_validated :: "(loan \<Rightarrow> bool) \<Rightarrow> nat \<Rightarrow> loan \<Rightarrow> store \<Rightarrow> error + store" where
  "Loan_save_validated vL i l s = (if vL l then Inr (Loan_save i l s) else Inl ValidationError)"

text \<open>\<^verbatim>\<open>Loan.findByIdAndUpdate(id, { $inc: { penaltyAmount: delta } })\<close>: nothing happens
  when no loan has the id.\<close>

definition Loan_incPenalty :: "nat \<Rightarrow> int \<Rightarrow> store \<Rightarrow> store" where
  "Loan_incPenalty i delta s =
     (case Loan_findById i s of
        None \<Rightarrow> s
      | Some l \<Rightarrow> Loan_save i (l\<lparr>loan.penaltyAmount := loan.penaltyAmount l + delta\<rparr>) s)"

section \<open>Schedule generation\<close>

text \<open>
  \<^verbatim>\<open>generateEMISchedule(loan)\<close>. The argument is the loan document the caller holds (its
  id and its in-memory fields); \<open>now\<close> and \<open>now2\<close> are the two readings of the clock
  (\<^verbatim>\<open>new Date()\<close> at the start and for \<^verbatim>\<open>approvedAt\<close>). The function has no check of its
  own and no failing branch. When \<open>totalDays\<close> is 0 JavaScript's quotients are infinite or
  NaN and HOL's are 0; the loop is then empty and the quotients are not used.
\<close>

definition generateEMISchedule :: "date \<Rightarrow> date \<Rightarrow> nat \<times> loan \<Rightarrow> store \<Rightarrow> emi list \<times> store" where
  "generateEMISchedule now now2 doc s =
     (let (lid, loan0) = doc;
          startDate = setHours0 (addDays now 1);
          totalInterest = of_int (amount loan0) * (20 / 100 :: rat);
          dailyPrincipal = Math_ceil (of_int (amount loan0) / of_int (totalDays loan0));
          dailyInterest = Math_ceil (totalInterest / of_int (totalDays loan0));
          es = map (\<lambda>day.
                 \<lparr>loanId = lid,
                  userId = loan.userId loan0,
                  dayNumber = day,
                  principalAmount = dailyPrincipal,
                  interestAmount = dailyInterest,
                  penaltyAmount = 0,
                  totalAmount = dailyPrincipal + dailyInterest,
                  dueDate = addDays startDate (day - 1),
                  status = Pending,
                  paymentRequested = False,
                  requestCanceled = False,
                  paidViaRequest = False,
                  paidAt = None,
                  razorpayPaymentId = None\<rparr>) [1..totalDays loan0];
          s1 = EMI_insertMany es s;
          loan1 = loan0\<lparr>startDate := Some startDate,
                    endDate := Some (addDays startDate (totalDays loan0 - 1)),
                    approvedAt := Some now2\<rparr>
      in (es, Loan_save lid loan1 s1))"

text \<open>
  The same function over stores that validate. \<^verbatim>\<open>generateEMISchedule\<close> has no
  \<^verbatim>\<open>try\<close>: a rejection of \<^verbatim>\<open>await EMI.insertMany(emis)\<close> or of \<^verbatim>\<open>await loan.save()\<close>
  leaves the function at that line, with the writes made before it. The result is the store
  and either the error or the returned array.
\<close>

definition generateEMISchedule_validated ::
  "(emi \<Rightarrow> bool) \<Rightarrow> (loan \<Rightarrow> bool) \<Rightarrow> date \<Rightarrow> date \<Rightarrow> nat \<times> loan \<Rightarrow> store
     \<Rightarrow> store \<times> (error + emi list)" where
  "generateEMISchedule_validated vE vL now now2 doc s =
     (let (lid, loan0) = doc;
          startDate = setHours0 (addDays now 1);
          totalInterest = of_int (amount loan0) * (20 / 100 :: rat);
          dailyPrincipal = Math_ceil (of_int (amount loan0) / of_int (totalDays loan0));
          dailyInterest = Math_ceil (totalInterest / of_int (totalDays loan0));
          es = map (\<lambda>day.
                 \<lparr>loanId = lid,
                  userId = loan.userId loan0,
                  dayNumber = day,
                  principalAmount = dailyPrincipal,
                  interestAmount = dailyInterest,
                  penaltyAmount = 0,
                  totalAmount = dailyPrincipal + dailyInterest,
                  dueDate = addDays startDate (day - 1),
                  status = Pending,
                  paymentRequested = False,
                  requestCanceled = False,
                  paidViaRequest = False,
                  paidAt = None,
                  razorpayPaymentId = None\<rparr>) [1..totalDays loan0]
      in case EMI_insertMany_validated vE es s of
           Inl err \<Rightarrow> (s, Inl err)
         | Inr s1 \<Rightarrow>
             (let loan1 = loan0\<lparr>startDate := Some startDate,
                            endDate := Some (addDays startDate (totalDays loan0 - 1)),
                            approvedAt := Some now2\<rparr>
              in case Loan_save_validated vL lid loan1 s1 of
                   Inl err \<Rightarrow> (s1, Inl err)
                 | Inr s2 \<Rightarrow> (s2, Inr es)))"

section \<open>The accrual sweep\<close>

text \<open>The body of the \<^verbatim>\<open>for (const emi of lateEMIs)\<close> loop of \<^verbatim>\<open>processOverdueEMIs\<close>, on
  one loaded document. \<^verbatim>\<open>emi.isModified('status')\<close> holds when the loaded status was
  not already \<^verbatim>\<open>'overdue'\<close>.\<close>

definition processOne :: "date \<Rightarrow> nat \<times> emi \<Rightarrow> store \<times> nat \<Rightarrow> store \<times> nat" where
  "processOne today doc sc =
     (let (i, emi0) = doc;
          (s, processedCount) = sc;
          due = setHours0 (dueDate emi0);
          diffMs = today - due;
          daysOverdue = diffMs div msPerDay
      in if daysOverdue \<le> 0 then (s, processedCount)
         else
           let emi1 = emi0\<lparr>emi.status := Overdue\<rparr>;
               penaltyPerDay = Math_ceil (of_int (principalAmount emi1) / 2);
               newPenalty = penaltyPerDay * daysOverdue;
               oldPenalty = emi.penaltyAmount emi1
           in if newPenalty \<noteq> oldPenalty then
                let delta = newPenalty - oldPenalty;
                    emi2 = emi1\<lparr>emi.penaltyAmount := newPenalty,
                                totalAmount := principalAmount emi1 + interestAmount emi1 + newPenalty\<rparr>
                in (Loan_incPenalty (loanId emi2) delta (EMI_save i emi2 s), processedCount + 1)
              else if emi.status emi0 \<noteq> Overdue then (EMI_save i emi1 s, processedCount + 1)
              else (s, processedCount))"

definition processOverdueEMIs :: "date \<Rightarrow> store \<Rightarrow> store \<times> nat" where
  "processOverdueEMIs now s =
     (let today = setHours0 now;
          lateEMIs = EMI_find (\<lambda>e. emi.status e \<in> {Pending, Overdue} \<and> dueDate e < today) s
      in foldl (\<lambda>sc doc. processOne today doc sc) (s, 0) lateEMIs)"

section \<open>The correction script (model)\<close>

text \<open>
  \<^verbatim>\<open>run\<close> of \<^verbatim>\<open>scripts/fix-overdues.js\<close>. The query populates \<^verbatim>\<open>loanId\<close>, so each loaded
  document carries its loan, or null when the loan is gone; \<^verbatim>\<open>emi.loanId._id\<close> then throws
  a TypeError, which ends the script with the writes made so far. \<^verbatim>\<open>loanPenaltyMap\<close> is an
  object used as a dictionary, kept here as an association list in insertion order.
  \<open>objGet\<close> reads an entry for \<^verbatim>\<open>+=\<close>; the entry has always been set by the line before, so
  its default is never used.
\<close>

definition objGet :: "(nat \<times> int) list \<Rightarrow> nat \<Rightarrow> int" where
  "objGet m k = (case map_of m k of None \<Rightarrow> 0 | Some v \<Rightarrow> v)"

fun correctLoop ::
  "date \<Rightarrow> (nat \<times> emi \<times> loan option) list \<Rightarrow> store \<Rightarrow> (nat \<times> int) list
     \<Rightarrow> store \<times> (error + (nat \<times> int) list)" where
  "correctLoop today [] s m = (s, Inr m)"
| "correctLoop today ((i, emi0, populated) # rest) s m =
     (let due = setHours0 (dueDate emi0);
          diffMs = today - due;
          daysOverdue = diffMs div msPerDay
      in case populated of
           None \<Rightarrow> (s, Inl TypeError)
         | Some _ \<Rightarrow>
             let lid = loanId emi0;
                 m1 = (if (case map_of m lid of None \<Rightarrow> True | Some v \<Rightarrow> v = 0)
                       then AList.update lid 0 m else m)
             in if daysOverdue \<le> 0 then
                  (if emi.status emi0 = Overdue \<or> emi.penaltyAmount emi0 > 0 then
                     correctLoop today rest
                       (EMI_save i (emi0\<lparr>emi.status := Pending, emi.penaltyAmount := 0,
                            totalAmount := principalAmount emi0 + interestAmount emi0\<rparr>) s) m1
                   else correctLoop today rest s m1)
                else
                  let penaltyPerDay = Math_ceil (of_int (principalAmount emi0) / 2);
                      correctPenalty = penaltyPerDay * daysOverdue;
                      correctTotal = principalAmount emi0 + interestAmount emi0 + correctPenalty;
                      m2 = AList.update lid (objGet m1 lid + correctPenalty) m1
                  in if emi.status emi0 \<noteq> Overdue \<or> emi.penaltyAmount emi0 \<noteq> correctPenalty
                        \<or> totalAmount emi0 \<noteq> correctTotal then
                       correctLoop today rest
                         (EMI_save i (emi0\<lparr>emi.status := Overdue, emi.penaltyAmount := correctPenalty,
                              totalAmount := correctTotal\<rparr>) s) m2
                     else correctLoop today rest s m2)"

fun fixLoans :: "(nat \<times> int) list \<Rightarrow> store \<Rightarrow> store" where
  "fixLoans [] s = s"
| "fixLoans ((lid, correctPenalty) # rest) s =
     (case Loan_findById lid s of
        None \<Rightarrow> fixLoans rest s
      | Some loan0 \<Rightarrow>
          if loan.penaltyAmount loan0 \<noteq> correctPenalty then
            fixLoans rest (Loan_save lid (loan0\<lparr>loan.penaltyAmount := correctPenalty\<rparr>) s)
          else fixLoans rest s)"

definition run :: "date \<Rightarrow> store \<Rightarrow> store \<times> error option" where
  "run now s =
     (let today = setHours0 now;
          allUnpaidEMIs = map (\<lambda>(i, e). (i, e, Loan_findById (loanId e) s))
                            (EMI_find (\<lambda>e. emi.status e \<in> {Pending, Overdue}) s)
      in case correctLoop today allUnpaidEMIs s [] of
           (s1, Inl err) \<Rightarrow> (s1, Some err)
         | (s1, Inr loanPenaltyMap) \<Rightarrow> (fixLoans loanPenaltyMap s1, None))"

section \<open>Admin actions on one EMI\<close>

text \<open>\<^verbatim>\<open>PUT /api/admin/emis/:id/mark-paid\<close>; \<open>admin\<close> is \<^verbatim>\<open>req.user._id\<close>, \<open>now\<close> and
  \<open>now2\<close> are \<^verbatim>\<open>new Date()\<close> and \<^verbatim>\<open>Date.now()\<close>, and the payment id
  \<^verbatim>\<open>admin_<user>_<time>\<close> is kept as the pair it is printed from.\<close>

definition markPaid :: "nat \<Rightarrow> date \<Rightarrow> date \<Rightarrow> nat \<Rightarrow> store \<Rightarrow> response \<times> store" where
  "markPaid admin now now2 i s =
     (case EMI_findById i s of
        None \<Rightarrow> (Err404 ''EMI not found'', s)
      | Some emi0 \<Rightarrow>
          if emi.status emi0 = Paid then (Err400 ''EMI already paid'', s)
          else
            let wasRequested = paymentRequested emi0;
                emi1 = emi0\<lparr>emi.status := Paid, paidAt := Some now,
                            paymentRequested := False, requestCanceled := False\<rparr>;
                emi2 = (if wasRequested then emi1\<lparr>paidViaRequest := True\<rparr> else emi1);
                emi3 = emi2\<lparr>razorpayPaymentId := Some (admin, now2)\<rparr>;
                s1 = EMI_save i emi3 s
            in (case Loan_findById (loanId emi3) s1 of
                  None \<Rightarrow> (Ok200 ''EMI marked as paid'', s1)
                | Some loan0 \<Rightarrow>
                    let loan1 = loan0\<lparr>totalPaid := totalPaid loan0 + totalAmount emi3,
                                 remainingBalance := remainingBalance loan0
                                   - (principalAmount emi3 + interestAmount emi3)\<rparr>;
                        pendingCount = EMI_countDocuments
                          (\<lambda>e. loanId e = loanId emi3 \<and> emi.status e \<noteq> Paid) s1;
                        loan2 = (if pendingCount = 0 then loan1\<lparr>loan.status := LoanCompleted\<rparr>
                                 else loan1)
                    in (Ok200 ''EMI marked as paid'', Loan_save (loanId emi3) loan2 s1)))"

text \<open>\<^verbatim>\<open>PUT /api/admin/emis/:id/clear-overdue\<close>\<close>

definition clearOverdue :: "nat \<Rightarrow> store \<Rightarrow> response \<times> store" where
  "clearOverdue i s =
     (case EMI_findById i s of
        None \<Rightarrow> (Err404 ''EMI not found'', s)
      | Some emi0 \<Rightarrow>
          if emi.status emi0 = Paid then (Err400 ''EMI already paid'', s)
          else
            let oldPenalty = emi.penaltyAmount emi0
            in if oldPenalty \<le> 0 then (Err400 ''No overdue charges to clear'', s)
               else
                 let emi1 = emi0\<lparr>emi.penaltyAmount := 0,
                                 totalAmount := principalAmount emi0 + interestAmount emi0\<rparr>;
                     s1 = EMI_save i emi1 s
                 in (case Loan_findById (loanId emi1) s1 of
                       None \<Rightarrow> (Ok200 ''Overdue charges cleared'', s1)
                     | Some loan0 \<Rightarrow>
                         (Ok200 ''Overdue charges cleared'',
                          Loan_save (loanId emi1)
                            (loan0\<lparr>loan.penaltyAmount :=
                               max 0 (loan.penaltyAmount loan0 - oldPenalty)\<rparr>) s1)))"

section \<open>Vocabulary of the properties\<close>

text \<open>
  None of the definitions of this section is a translation of source code. They name what the
  theorems talk about: the number of days an EMI is overdue, the penalty due for them, and the
  effect of each loop on a single document, against which the loops above are proved.
\<close>

text \<open>\<open>floor((today - dueDate at midnight) / 1 day)\<close>, and \<open>ceil(principalAmount / 2)\<close>
  times it.\<close>

definition daysOverdue :: "date \<Rightarrow> emi \<Rightarrow> int" where
  "daysOverdue today e = (today - setHours0 (dueDate e)) div msPerDay"

definition duePenalty :: "date \<Rightarrow> emi \<Rightarrow> int" where
  "duePenalty today e = Math_ceil (of_int (principalAmount e) / 2) * daysOverdue today e"

text \<open>The query of the sweep, and what the sweep leaves of a document: \<open>accrued\<close> for
  one it fetched, \<open>swept\<close> for any document.\<close>

definition isLate :: "date \<Rightarrow> emi \<Rightarrow> bool" where
  "isLate today e \<longleftrightarrow> emi.status e \<in> {Pending, Overdue} \<and> dueDate e < today"

definition accrued :: "date \<Rightarrow> emi \<Rightarrow> emi" where
  "accrued today e =
     (if daysOverdue today e \<le> 0 then e
      else if duePenalty today e \<noteq> emi.penaltyAmount e then
        e\<lparr>emi.status := Overdue, emi.penaltyAmount := duePenalty today e,
          totalAmount := principalAmount e + interestAmount e + duePenalty today e\<rparr>
      else e\<lparr>emi.status := Overdue\<rparr>)"

definition swept :: "date \<Rightarrow> emi \<Rightarrow> emi" where
  "swept today e = (if isLate today e then accrued today e else e)"

text \<open>A list of loaded documents agrees with the store: the ids are distinct and each
  document is the one stored under its id.\<close>

definition docsOf :: "store \<Rightarrow> (nat \<times> emi) list \<Rightarrow> bool" where
  "docsOf s docs \<longleftrightarrow>
     distinct (map fst docs) \<and> (\<forall>(i, e) \<in> set docs. i < length (emis s) \<and> emis s ! i = e)"

abbreviation sweepLoop :: "date \<Rightarrow> store \<times> nat \<Rightarrow> (nat \<times> emi) list \<Rightarrow> store \<times> nat" where
  "sweepLoop today sc docs \<equiv> foldl (\<lambda>sc doc. processOne today doc sc) sc docs"

text \<open>The EMI with day number \<open>day\<close> of a schedule that starts at \<open>start\<close>.\<close>

definition newEMI :: "nat \<Rightarrow> nat \<Rightarrow> int \<Rightarrow> int \<Rightarrow> date \<Rightarrow> int \<Rightarrow> emi" where
  "newEMI lid uid p q start day =
     \<lparr>loanId = lid, userId = uid, dayNumber = day, principalAmount = p, interestAmount = q,
      penaltyAmount = 0, totalAmount = p + q, dueDate = addDays start (day - 1),
      status = Pending, paymentRequested = False, requestCanceled = False,
      paidViaRequest = False, paidAt = None, razorpayPaymentId = None\<rparr>"

text \<open>What the correction script leaves of a document: \<open>corrected\<close> for one it loaded,
  \<open>fixed\<close> for any document. \<open>bump\<close> is what one loaded document does to
  \<^verbatim>\<open>loanPenaltyMap\<close>.\<close>

definition corrected :: "date \<Rightarrow> emi \<Rightarrow> emi" where
  "corrected today e =
     (if daysOverdue today e \<le> 0 then
        (if emi.status e = Overdue \<or> 0 < emi.penaltyAmount e
         then e\<lparr>emi.status := Pending, emi.penaltyAmount := 0,
                totalAmount := principalAmount e + interestAmount e\<rparr>
         else e)
      else e\<lparr>emi.status := Overdue, emi.penaltyAmount := duePenalty today e,
             totalAmount := principalAmount e + interestAmount e + duePenalty today e\<rparr>)"

definition fixed :: "date \<Rightarrow> emi \<Rightarrow> emi" where
  "fixed today e = (if emi.status e \<noteq> Paid then corrected today e else e)"

definition bump :: "date \<Rightarrow> emi \<Rightarrow> (nat \<times> int) list \<Rightarrow> (nat \<times> int) list" where
  "bump today e m =
     (let m1 = (if (case map_of m (loanId e) of None \<Rightarrow> True | Some v \<Rightarrow> v = 0)
                then AList.update (loanId e) 0 m else m)
      in if daysOverdue today e \<le> 0 then m1
         else AList.update (loanId e) (objGet m1 (loanId e) + duePenalty today e) m1)"

abbreviation bumpAll :: "date \<Rightarrow> (nat \<times> emi \<times> loan option) list \<Rightarrow> (nat \<times> int) list
    \<Rightarrow> (nat \<times> int) list" where
  "bumpAll t docs m \<equiv> foldl (\<lambda>m d. bump t (fst (snd d)) m) m docs"

text \<open>The populated documents agree with the store, and each has its loan.\<close>

definition pdocsOf :: "store \<Rightarrow> (nat \<times> emi \<times> loan option) list \<Rightarrow> bool" where
  "pdocsOf s docs \<longleftrightarrow>
     distinct (map fst docs)
     \<and> (\<forall>d \<in> set docs. fst d < length (emis s) \<and> emis s ! fst d = fst (snd d)
            \<and> snd (snd d) \<noteq> None)"

text \<open>The query of the script and its populated result.\<close>

definition isUnpaid :: "emi \<Rightarrow> bool" where
  "isUnpaid e \<longleftrightarrow> emi.status e \<in> {Pending, Overdue}"

definition populate :: "store \<Rightarrow> nat \<times> emi \<Rightarrow> nat \<times> emi \<times> loan option" where
  "populate s doc = (fst doc, snd doc, Loan_findById (loanId (snd doc)) s)"

definition unpaidDocs :: "store \<Rightarrow> (nat \<times> emi \<times> loan option) list" where
  "unpaidDocs s = map (populate s) (EMI_find isUnpaid s)"

section \<open>Example data\<close>

text \<open>Documents used to instantiate the theorems below. Day \<open>k\<close> starts at
  \<open>k * msPerDay\<close>; \<open>febNow\<close> is nine o'clock on day 16.\<close>

definition mkEMI :: "nat \<Rightarrow> int \<Rightarrow> int \<Rightarrow> int \<Rightarrow> int \<Rightarrow> date \<Rightarrow> emi_status \<Rightarrow> emi" where
  "mkEMI lid p i pen tot due st =
     \<lparr>loanId = lid, userId = 0, dayNumber = 1, principalAmount = p, interestAmount = i,
      penaltyAmount = pen, totalAmount = tot, dueDate = due, status = st,
      paymentRequested = False, requestCanceled = False, paidViaRequest = False,
      paidAt = None, razorpayPaymentId = None\<rparr>"

definition mkLoan :: "int \<Rightarrow> int \<Rightarrow> int \<Rightarrow> loan" where
  "mkLoan amt days pen =
     \<lparr>userId = 0, amount = amt, totalDays = days, interestRate = 20, status = LoanApproved,
      startDate = None, endDate = None, approvedAt = None, totalPaid = 0,
      remainingBalance = 0, penaltyAmount = pen\<rparr>"

definition febNow :: date where
  "febNow = 16 * msPerDay + 9 * 60 * 60 * 1000"

definition febStore :: store where
  "febStore =
     \<lparr>emis = [mkEMI 0 50 10 0 60 (13 * msPerDay) Pending,
              mkEMI 0 50 10 0 60 (16 * msPerDay) Pending,
              mkEMI 0 50 10 0 60 (15 * msPerDay) Pending],
      loans = [mkLoan 1000 20 0]\<rparr>"

definition staleStore :: store where
  "staleStore =
     \<lparr>emis = [mkEMI 0 50 10 75 60 (13 * msPerDay) Overdue],
      loans = [mkLoan 1000 20 75]\<rparr>"

definition waiverStore :: store where
  "waiverStore =
     \<lparr>emis = [mkEMI 0 50 10 75 135 (13 * msPerDay) Overdue],
      loans = [mkLoan 1000 20 200]\<rparr>"

definition newLoanStore :: "int \<Rightarrow> int \<Rightarrow> store" where
  "newLoanStore amt days = \<lparr>emis = [], loans = [mkLoan amt days 0]\<rparr>"

text \<open>
  Modelled from the spec: validators for the examples. For a loan, section 4.1 has the
  generator fail with a ValidationError if \<open>totalDays < 1\<close> or \<open>amount < 0\<close>. For an EMI the
  spec gives no range; \<open>specEMIValid\<close> rejects a day number below 1 and every negative
  amount, and so accepts the schedule of every loan with \<open>totalDays \<ge> 1\<close> and \<open>amount \<ge> 0\<close>.
\<close>

definition specLoanValid :: "loan \<Rightarrow> bool" where
  "specLoanValid l \<longleftrightarrow> 1 \<le> totalDays l \<and> 0 \<le> amount l"

definition specEMIValid :: "emi \<Rightarrow> bool" where
  "specEMIValid e \<longleftrightarrow> 1 \<le> dayNumber e \<and> 0 \<le> principalAmount e \<and> 0 \<le> interestAmount e
     \<and> 0 \<le> emi.penaltyAmount e \<and> 0 \<le> totalAmount e"

text \<open>A schema without validators.\<close>

definition acceptAll :: "'a \<Rightarrow> bool" where
  "acceptAll x = True"

text \<open>The store of \<open>febStore\<close> after the sweep of \<open>febNow\<close> and after the admin (user 7) has
  then marked its first EMI as paid.\<close>

definition sweptPaidStore :: store where
  "sweptPaidStore = snd (markPaid 7 febNow febNow 0 (fst (processOverdueEMIs febNow febStore)))"

definition paidStore :: store where
  "paidStore =
     \<lparr>emis = [mkEMI 0 50 10 75 135 (13 * msPerDay) Overdue,
              mkEMI 0 50 10 0 60 (14 * msPerDay) Paid,
              mkEMI 1 50 10 0 60 (14 * msPerDay) Pending,
              mkEMI 1 50 10 0 60 (15 * msPerDay) Pending],
      loans = [(mkLoan 1000 20 75)\<lparr>remainingBalance := 1140\<rparr>,
               (mkLoan 1000 20 0)\<lparr>remainingBalance := 1200\<rparr>]\<rparr>"

definition driftStore :: store where
  "driftStore =
     \<lparr>emis = [mkEMI 0 50 10 25 85 (12 * msPerDay) Paid,
              mkEMI 0 50 10 50 110 (13 * msPerDay) Overdue,
              mkEMI 0 50 10 25 85 (17 * msPerDay) Overdue,
              mkEMI 1 50 10 0 60 (12 * msPerDay) Paid],
      loans = [mkLoan 1000 20 100, mkLoan 1000 20 40]\<rparr>"

section \<open>Dates\<close>

lemmas example_defs = febStore_def febNow_def staleStore_def waiverStore_def mkEMI_def mkLoan_def
  daysOverdue_def duePenalty_def setHours0_def addDays_def msPerDay_def Math_ceil_def

lemmas sweep_eval = processOverdueEMIs_def EMI_find_def enumerate_eq_zip processOne_def
  Loan_incPenalty_def Loan_findById_def Loan_save_def EMI_save_def Let_def

lemma msPerDay_pos: "0 < msPerDay"
  by (simp add: msPerDay_def)

lemma setHours0_le: "setHours0 t \<le> t"
  using msPerDay_pos by (simp add: setHours0_def)

lemma setHours0_gt: "t < setHours0 t + msPerDay"
  using msPerDay_pos by (simp add: setHours0_def)

lemma setHours0_dvd: "msPerDay dvd setHours0 t"
  by (simp add: setHours0_def minus_mod_eq_mult_div)

lemma setHours0_idem: "setHours0 (setHours0 t) = setHours0 t"
  using setHours0_dvd [of t] by (simp add: setHours0_def [of "setHours0 t"] dvd_eq_mod_eq_0)

lemma late_iff_days:
  "dueDate e < setHours0 now \<longleftrightarrow> 1 \<le> daysOverdue (setHours0 now) e"
proof -
  obtain a where a: "setHours0 now = msPerDay * a"
    using setHours0_dvd [of now] by (auto simp: dvd_def)
  obtain b where b: "setHours0 (dueDate e) = msPerDay * b"
    using setHours0_dvd [of "dueDate e"] by (auto simp: dvd_def)
  have d: "daysOverdue (msPerDay * a) e = a - b"
    using msPerDay_pos by (simp add: daysOverdue_def b flip: right_diff_distrib)
  have "dueDate e < msPerDay * a \<longleftrightarrow> b < a"
  proof
    assume "dueDate e < msPerDay * a"
    with setHours0_le [of "dueDate e"] have "msPerDay * b < msPerDay * a" by (simp add: b)
    then show "b < a" using msPerDay_pos by simp
  next
    assume "b < a"
    then have "b + 1 \<le> a" by simp
    then have "msPerDay * (b + 1) \<le> msPerDay * a" using msPerDay_pos by simp
    with setHours0_gt [of "dueDate e"] show "dueDate e < msPerDay * a"
      by (simp add: b distrib_left)
  qed
  then show ?thesis by (auto simp: a d)
qed

section \<open>The sweep, one document at a time\<close>

lemma Loan_incPenalty_zero: "Loan_incPenalty l 0 s = s"
  by (simp add: Loan_incPenalty_def Loan_findById_def Loan_save_def)

lemma EMI_save_same: "i < length (emis s) \<Longrightarrow> EMI_save i (emis s ! i) s = s"
  by (simp add: EMI_save_def)

lemma accrued_same: "emi.status e = Overdue \<Longrightarrow> e\<lparr>emi.status := Overdue\<rparr> = e"
  by simp

lemma processOne_accrued:
  assumes "i < length (emis s)" and "emis s ! i = e"
  shows "processOne today (i, e) (s, c) =
           (Loan_incPenalty (loanId e) (emi.penaltyAmount (accrued today e) - emi.penaltyAmount e)
              (EMI_save i (accrued today e) s),
            c + (if accrued today e = e then 0 else 1))"
proof -
  have same: "EMI_save i e s = s"
    using assms EMI_save_same [of i s] by simp
  show ?thesis
  proof (cases "daysOverdue today e \<le> 0")
    case True
    then show ?thesis
      by (simp add: processOne_def accrued_def daysOverdue_def Loan_incPenalty_zero same)
  next
    case False
    show ?thesis
    proof (cases "duePenalty today e = emi.penaltyAmount e")
      case pen: True
      show ?thesis
      proof (cases "emi.status e = Overdue")
        case True
        with False pen show ?thesis
          by (simp add: processOne_def accrued_def daysOverdue_def duePenalty_def
              Loan_incPenalty_zero same Let_def accrued_same [OF True])
      next
        case st: False
        have "e\<lparr>emi.status := Overdue\<rparr> \<noteq> e"
        proof
          assume "e\<lparr>emi.status := Overdue\<rparr> = e"
          then have "emi.status (e\<lparr>emi.status := Overdue\<rparr>) = emi.status e"
            by (rule arg_cong)
          with st show False by simp
        qed
        with False pen st show ?thesis
          by (simp add: processOne_def accrued_def daysOverdue_def duePenalty_def
              Loan_incPenalty_zero Let_def)
      qed
    next
      case pen: False
      have "e\<lparr>emi.status := Overdue, emi.penaltyAmount := duePenalty today e,
          totalAmount := principalAmount e + interestAmount e + duePenalty today e\<rparr> \<noteq> e"
        (is "?e' \<noteq> e")
      proof
        assume "?e' = e"
        then have "emi.penaltyAmount ?e' = emi.penaltyAmount e"
          by (rule arg_cong)
        with pen show False by simp
      qed
      with False pen show ?thesis
        by (simp add: processOne_def accrued_def daysOverdue_def duePenalty_def Let_def)
    qed
  qed
qed

lemma docsOf_Cons:
  assumes "docsOf s ((i, e) # rest)"
  shows "i < length (emis s)" and "emis s ! i = e" and "i \<notin> fst ` set rest"
    and "docsOf (Loan_incPenalty l d (EMI_save i e' s)) rest"
proof -
  from assms show i: "i < length (emis s)" and "emis s ! i = e" and ni: "i \<notin> fst ` set rest"
    by (auto simp: docsOf_def)
  have em: "emis (Loan_incPenalty l d (EMI_save i e' s)) = (emis s)[i := e']"
    by (simp add: Loan_incPenalty_def Loan_findById_def Loan_save_def EMI_save_def)
  from assms ni show "docsOf (Loan_incPenalty l d (EMI_save i e' s)) rest"
    unfolding docsOf_def em by (force simp: nth_list_update)
qed

lemma step_emis: "emis (Loan_incPenalty l d (EMI_save i e' s)) = (emis s)[i := e']"
  by (simp add: Loan_incPenalty_def Loan_findById_def Loan_save_def EMI_save_def)

lemma step_loans:
  "loans (Loan_incPenalty l d (EMI_save i e' s)) =
     (if l < length (loans s)
      then (loans s)[l := (loans s ! l)\<lparr>loan.penaltyAmount := loan.penaltyAmount (loans s ! l) + d\<rparr>]
      else loans s)"
  by (simp add: Loan_incPenalty_def Loan_findById_def Loan_save_def EMI_save_def)

lemma sweepLoop_emis:
  assumes "docsOf s docs"
  shows "length (emis (fst (sweepLoop today (s, c) docs))) = length (emis s)
       \<and> (\<forall>j < length (emis s). emis (fst (sweepLoop today (s, c) docs)) ! j =
            (if j \<in> fst ` set docs then accrued today (emis s ! j) else emis s ! j))"
  using assms
proof (induction docs arbitrary: s c)
  case Nil
  then show ?case by simp
next
  case (Cons doc rest)
  obtain i e where doc: "doc = (i, e)" by (cases doc)
  note d = docsOf_Cons [OF Cons.prems [unfolded doc]]
  let ?s1 = "Loan_incPenalty (loanId e) (emi.penaltyAmount (accrued today e) - emi.penaltyAmount e)
              (EMI_save i (accrued today e) s)"
  have step: "sweepLoop today (s, c) (doc # rest)
                = sweepLoop today (?s1, c + (if accrued today e = e then 0 else 1)) rest"
    by (simp add: doc processOne_accrued [OF d(1,2)])
  from Cons.IH [OF d(4)] d(1,2,3) show ?case
    unfolding step by (auto simp: step_emis doc nth_list_update)
qed

lemma sweepLoop_loans:
  assumes "docsOf s docs"
  shows "length (loans (fst (sweepLoop today (s, c) docs))) = length (loans s)
       \<and> (\<forall>l < length (loans s). loans (fst (sweepLoop today (s, c) docs)) ! l =
            (loans s ! l)\<lparr>loan.penaltyAmount := loan.penaltyAmount (loans s ! l)
               + (\<Sum>doc\<leftarrow>docs. if loanId (snd doc) = l
                    then emi.penaltyAmount (accrued today (snd doc)) - emi.penaltyAmount (snd doc)
                    else 0)\<rparr>)"
  using assms
proof (induction docs arbitrary: s c)
  case Nil
  then show ?case by simp
next
  case (Cons doc rest)
  obtain i e where doc: "doc = (i, e)" by (cases doc)
  note d = docsOf_Cons [OF Cons.prems [unfolded doc]]
  let ?s1 = "Loan_incPenalty (loanId e) (emi.penaltyAmount (accrued today e) - emi.penaltyAmount e)
              (EMI_save i (accrued today e) s)"
  have step: "sweepLoop today (s, c) (doc # rest)
                = sweepLoop today (?s1, c + (if accrued today e = e then 0 else 1)) rest"
    by (simp add: doc processOne_accrued [OF d(1,2)])
  from Cons.IH [OF d(4)] show ?case
    unfolding step by (auto simp: step_loans doc nth_list_update)
qed

lemma sweepLoop_count:
  assumes "docsOf s docs"
  shows "snd (sweepLoop today (s, c) docs)
           = c + length (filter (\<lambda>doc. accrued today (snd doc) \<noteq> snd doc) docs)"
  using assms
proof (induction docs arbitrary: s c)
  case Nil
  then show ?case by simp
next
  case (Cons doc rest)
  obtain i e where doc: "doc = (i, e)" by (cases doc)
  note d = docsOf_Cons [OF Cons.prems [unfolded doc]]
  let ?s1 = "Loan_incPenalty (loanId e) (emi.penaltyAmount (accrued today e) - emi.penaltyAmount e)
              (EMI_save i (accrued today e) s)"
  have step: "sweepLoop today (s, c) (doc # rest)
                = sweepLoop today (?s1, c + (if accrued today e = e then 0 else 1)) rest"
    by (simp add: doc processOne_accrued [OF d(1,2)])
  from Cons.IH [OF d(4)] show ?case
    unfolding step by (simp add: doc)
qed

section \<open>The sweep as a whole\<close>

lemma EMI_find_snd: "map snd (EMI_find P s) = filter P (emis s)"
proof -
  have "map snd (filter (\<lambda>ie. P (snd ie)) xs) = filter P (map snd xs)" for xs :: "(nat \<times> emi) list"
    by (simp add: filter_map comp_def)
  from this [of "enumerate 0 (emis s)"] show ?thesis
    by (simp add: EMI_find_def)
qed

lemma EMI_find_set:
  "set (EMI_find P s) = {(j, e). j < length (emis s) \<and> e = emis s ! j \<and> P e}"
  by (auto simp: EMI_find_def in_set_enumerate_eq)

lemma EMI_find_docsOf: "docsOf s (EMI_find P s)"
  unfolding docsOf_def
proof
  show "distinct (map fst (EMI_find P s))"
    unfolding EMI_find_def by (rule distinct_map_filter) simp
  show "\<forall>(i, e)\<in>set (EMI_find P s). i < length (emis s) \<and> emis s ! i = e"
    by (auto simp: EMI_find_set)
qed

lemma EMI_find_fst: "j \<in> fst ` set (EMI_find P s) \<longleftrightarrow> j < length (emis s) \<and> P (emis s ! j)"
  by (force simp: EMI_find_set)

lemma processOverdueEMIs_loop:
  "processOverdueEMIs now s =
     sweepLoop (setHours0 now) (s, 0) (EMI_find (isLate (setHours0 now)) s)"
  by (simp add: processOverdueEMIs_def isLate_def [abs_def] Let_def)

lemma sweep_emis:
  "emis (fst (processOverdueEMIs now s)) = map (swept (setHours0 now)) (emis s)"
proof (rule nth_equalityI)
  note L = sweepLoop_emis [OF EMI_find_docsOf, of "setHours0 now" s 0 "isLate (setHours0 now)"]
  show "length (emis (fst (processOverdueEMIs now s))) = length (map (swept (setHours0 now)) (emis s))"
    using L by (simp add: processOverdueEMIs_loop)
  fix j assume "j < length (emis (fst (processOverdueEMIs now s)))"
  then have j: "j < length (emis s)"
    using L by (simp add: processOverdueEMIs_loop)
  with L show "emis (fst (processOverdueEMIs now s)) ! j = map (swept (setHours0 now)) (emis s) ! j"
    by (simp add: processOverdueEMIs_loop EMI_find_fst swept_def)
qed

lemma sum_docs:
  "(\<Sum>doc\<leftarrow>EMI_find P s. g (snd doc)) = (\<Sum>e\<leftarrow>emis s. if P e then g e else 0)"
proof -
  have "(\<Sum>doc\<leftarrow>EMI_find P s. g (snd doc)) = (\<Sum>e\<leftarrow>map snd (EMI_find P s). g e)"
    by (simp add: comp_def)
  also have "\<dots> = (\<Sum>e\<leftarrow>filter P (emis s). g e)"
    by (simp only: EMI_find_snd)
  also have "\<dots> = (\<Sum>e\<leftarrow>emis s. if P e then g e else 0)"
    by (rule sum_list_map_filter')
  finally show ?thesis .
qed

lemma sweep_loans_length:
  "length (loans (fst (processOverdueEMIs now s))) = length (loans s)"
  using sweepLoop_loans [OF EMI_find_docsOf, of "setHours0 now" s 0 "isLate (setHours0 now)"]
  by (simp add: processOverdueEMIs_loop)

lemma sweep_loans:
  assumes "l < length (loans s)"
  shows "loans (fst (processOverdueEMIs now s)) ! l =
           (loans s ! l)\<lparr>loan.penaltyAmount := loan.penaltyAmount (loans s ! l)
              + (\<Sum>e\<leftarrow>emis s. if loanId e = l
                   then emi.penaltyAmount (swept (setHours0 now) e) - emi.penaltyAmount e
                   else 0)\<rparr>"
proof -
  let ?t = "setHours0 now"
  have "(\<Sum>doc\<leftarrow>EMI_find (isLate ?t) s. if loanId (snd doc) = l
            then emi.penaltyAmount (accrued ?t (snd doc)) - emi.penaltyAmount (snd doc) else 0)
      = (\<Sum>e\<leftarrow>emis s. if isLate ?t e then
            (if loanId e = l then emi.penaltyAmount (accrued ?t e) - emi.penaltyAmount e else 0)
          else 0)"
    by (rule sum_docs)
  also have "\<dots> = (\<Sum>e\<leftarrow>emis s. if loanId e = l
                then emi.penaltyAmount (swept ?t e) - emi.penaltyAmount e else 0)"
    by (rule arg_cong [where f = sum_list]) (simp add: swept_def)
  finally show ?thesis
    using sweepLoop_loans [OF EMI_find_docsOf, of ?t s 0 "isLate ?t"] assms
    by (simp add: processOverdueEMIs_loop)
qed

lemma sweep_count:
  "snd (processOverdueEMIs now s)
     = length (filter (\<lambda>e. swept (setHours0 now) e \<noteq> e) (emis s))"
proof -
  let ?t = "setHours0 now"
  have "length (filter (\<lambda>doc. accrued ?t (snd doc) \<noteq> snd doc) (EMI_find (isLate ?t) s))
      = length (filter (\<lambda>e. accrued ?t e \<noteq> e) (map snd (EMI_find (isLate ?t) s)))"
    by (simp add: filter_map comp_def)
  also have "\<dots> = length (filter (\<lambda>e. isLate ?t e \<and> accrued ?t e \<noteq> e) (emis s))"
    unfolding EMI_find_snd by (simp add: conj_commute)
  also have "(\<lambda>e. isLate ?t e \<and> accrued ?t e \<noteq> e) = (\<lambda>e. swept ?t e \<noteq> e)"
    by (auto simp: swept_def)
  finally show ?thesis
    using sweepLoop_count [OF EMI_find_docsOf, of ?t s 0 "isLate ?t"]
    by (simp add: processOverdueEMIs_loop)
qed

lemma daysOverdue_accrued [simp]: "daysOverdue t (accrued t e) = daysOverdue t e"
  by (simp add: accrued_def daysOverdue_def)

lemma duePenalty_accrued [simp]: "duePenalty t (accrued t e) = duePenalty t e"
  by (simp add: duePenalty_def) (simp add: accrued_def)

lemma accrued_idem: "accrued t (accrued t e) = accrued t e"
proof (cases "daysOverdue t e \<le> 0")
  case True
  then show ?thesis by (simp add: accrued_def)
next
  case False
  then have st: "emi.status (accrued t e) = Overdue"
    and pen: "emi.penaltyAmount (accrued t e) = duePenalty t e"
    by (simp_all add: accrued_def)
  have "accrued t (accrued t e) = (accrued t e)\<lparr>emi.status := Overdue\<rparr>"
    using False pen by (simp add: accrued_def [of t "accrued t e"])
  also have "\<dots> = accrued t e"
    using st by simp
  finally show ?thesis .
qed

lemma swept_idem: "swept t (swept t e) = swept t e"
proof (cases "isLate t e")
  case True
  have "swept t (accrued t e) = accrued t e"
    by (simp add: swept_def accrued_idem)
  with True show ?thesis by (simp add: swept_def)
next
  case False
  then show ?thesis by (simp add: swept_def)
qed

lemma sum_list_all_zero: "(\<And>x. x \<in> set xs \<Longrightarrow> f x = (0::int)) \<Longrightarrow> (\<Sum>x\<leftarrow>xs. f x) = 0"
  by (induction xs) auto

lemma processOverdueEMIs_today:
  "setHours0 now2 = setHours0 now \<Longrightarrow> processOverdueEMIs now2 s = processOverdueEMIs now s"
  by (simp add: processOverdueEMIs_def)

text \<open>
  Claim C2. A second sweep on the same day (any clock reading with the same midnight), right
  after a first one, changes no EMI and no loan and returns the count 0, whatever the store
  held before the first sweep.
\<close>

theorem processOverdueEMIs_idempotent:
  assumes "setHours0 now2 = setHours0 now"
  shows "processOverdueEMIs now2 (fst (processOverdueEMIs now s))
           = (fst (processOverdueEMIs now s), 0)"
proof -
  let ?t = "setHours0 now"
  let ?s1 = "fst (processOverdueEMIs now s)"
  let ?s2 = "fst (processOverdueEMIs now ?s1)"
  have stable: "swept ?t e = e" if "e \<in> set (emis ?s1)" for e
    using that by (auto simp: sweep_emis swept_idem)
  have emis: "emis ?s2 = emis ?s1"
    unfolding sweep_emis [of now ?s1] by (rule map_idI) (rule stable)
  have zero: "(\<Sum>e\<leftarrow>emis ?s1. if loanId e = l
                 then emi.penaltyAmount (swept ?t e) - emi.penaltyAmount e else 0) = 0" for l
    by (rule sum_list_all_zero) (simp add: stable)
  have loans: "loans ?s2 = loans ?s1"
  proof (rule nth_equalityI)
    show "length (loans ?s2) = length (loans ?s1)"
      by (rule sweep_loans_length)
    fix l assume "l < length (loans ?s2)"
    then have "l < length (loans ?s1)"
      by (simp add: sweep_loans_length)
    from sweep_loans [OF this, of now] show "loans ?s2 ! l = loans ?s1 ! l"
      by (simp add: zero)
  qed
  have count: "snd (processOverdueEMIs now ?s1) = 0"
    unfolding sweep_count [of now ?s1] by (simp add: stable)
  have "?s2 = ?s1"
    using emis loans by (rule store.equality) simp
  with count show ?thesis
    unfolding processOverdueEMIs_today [OF assms] by (simp add: prod_eq_iff)
qed

theorem processOverdueEMIs_idempotent_witness:
  "setHours0 (febNow + 5 * 60 * 60 * 1000) = setHours0 febNow
   \<and> snd (processOverdueEMIs febNow febStore) = 2
   \<and> processOverdueEMIs (febNow + 5 * 60 * 60 * 1000) (fst (processOverdueEMIs febNow febStore))
       = (fst (processOverdueEMIs febNow febStore), 0)"
proof -
  have h: "setHours0 (febNow + 5 * 60 * 60 * 1000) = setHours0 febNow"
    by (simp add: example_defs)
  have "snd (processOverdueEMIs febNow febStore) = 2"
    by (simp add: sweep_eval example_defs)
  with h processOverdueEMIs_idempotent [OF h, of febStore] show ?thesis
    by simp
qed

lemma Math_ceil_half: "Math_ceil (of_int p / 2) = - (- p div 2)"
  using ceiling_divide_eq_div [of p 2, where ?'a = rat] by (simp add: Math_ceil_def)

lemma sweep_nth:
  "i < length (emis s) \<Longrightarrow>
     emis (fst (processOverdueEMIs now s)) ! i = swept (setHours0 now) (emis s ! i)"
  by (simp add: sweep_emis)

lemma setHours0_mono: "a \<le> b \<Longrightarrow> setHours0 a \<le> setHours0 b"
  using msPerDay_pos by (simp add: setHours0_def minus_mod_eq_mult_div zdiv_mono1)

lemma not_late_iff:
  "setHours0 now \<le> setHours0 (dueDate e) \<longleftrightarrow> \<not> dueDate e < setHours0 now"
proof
  assume "setHours0 now \<le> setHours0 (dueDate e)"
  with setHours0_le [of "dueDate e"] show "\<not> dueDate e < setHours0 now" by simp
next
  assume "\<not> dueDate e < setHours0 now"
  then have "setHours0 now \<le> dueDate e" by simp
  from setHours0_mono [OF this] show "setHours0 now \<le> setHours0 (dueDate e)"
    by (simp add: setHours0_idem)
qed

text \<open>
  Claim C1, as the code has it. For an unpaid EMI (pending or overdue) at position \<open>i\<close>:
  when its due day is today or later the sweep leaves the document as it is; when it is at
  least one day overdue the sweep leaves it with status overdue and
  \<open>penaltyAmount = ceil(principalAmount / 2) * daysOverdue\<close>, principal, interest and due
  date untouched. \<open>totalAmount\<close> is rewritten only together with the penalty, so
  \<open>totalAmount = principalAmount + interestAmount + penaltyAmount\<close> holds afterwards when
  the stored penalty differed from the new one or the stored total was already consistent.
  An EMI due on the day before today is one day overdue.
\<close>

theorem sweep_emi_after:
  assumes "i < length (emis s)" and "emi.status (emis s ! i) \<in> {Pending, Overdue}"
  shows "(setHours0 now \<le> setHours0 (dueDate (emis s ! i)) \<longrightarrow>
            emis (fst (processOverdueEMIs now s)) ! i = emis s ! i)
       \<and> (1 \<le> daysOverdue (setHours0 now) (emis s ! i) \<longrightarrow>
            emi.status (emis (fst (processOverdueEMIs now s)) ! i) = Overdue
          \<and> emi.penaltyAmount (emis (fst (processOverdueEMIs now s)) ! i) =
              Math_ceil (of_int (principalAmount (emis s ! i)) / 2)
                * daysOverdue (setHours0 now) (emis s ! i)
          \<and> principalAmount (emis (fst (processOverdueEMIs now s)) ! i) = principalAmount (emis s ! i)
          \<and> interestAmount (emis (fst (processOverdueEMIs now s)) ! i) = interestAmount (emis s ! i)
          \<and> dueDate (emis (fst (processOverdueEMIs now s)) ! i) = dueDate (emis s ! i)
          \<and> (emi.penaltyAmount (emis s ! i) \<noteq> duePenalty (setHours0 now) (emis s ! i)
               \<or> totalAmount (emis s ! i) = principalAmount (emis s ! i)
                    + interestAmount (emis s ! i) + emi.penaltyAmount (emis s ! i)
              \<longrightarrow> totalAmount (emis (fst (processOverdueEMIs now s)) ! i) =
                    principalAmount (emis (fst (processOverdueEMIs now s)) ! i)
                  + interestAmount (emis (fst (processOverdueEMIs now s)) ! i)
                  + emi.penaltyAmount (emis (fst (processOverdueEMIs now s)) ! i)))
       \<and> (setHours0 (dueDate (emis s ! i)) = addDays (setHours0 now) (- 1) \<longrightarrow>
            daysOverdue (setHours0 now) (emis s ! i) = 1)"
proof (intro conjI impI)
  let ?t = "setHours0 now" and ?e = "emis s ! i"
  note nth = sweep_nth [OF assms(1), of now]
  show "emis (fst (processOverdueEMIs now s)) ! i = ?e" if "?t \<le> setHours0 (dueDate ?e)"
    using that by (simp add: nth swept_def isLate_def not_late_iff)
  show "daysOverdue ?t ?e = 1" if "setHours0 (dueDate ?e) = addDays ?t (- 1)"
    using that msPerDay_pos by (simp add: daysOverdue_def addDays_def)
  assume days: "1 \<le> daysOverdue ?t ?e"
  then have late: "isLate ?t ?e"
    using assms(2) by (simp add: isLate_def late_iff_days)
  then have sw: "emis (fst (processOverdueEMIs now s)) ! i = accrued ?t ?e"
    by (simp add: nth swept_def)
  show "emi.status (emis (fst (processOverdueEMIs now s)) ! i) = Overdue"
    using days by (simp add: sw accrued_def)
  show "emi.penaltyAmount (emis (fst (processOverdueEMIs now s)) ! i) =
          Math_ceil (of_int (principalAmount ?e) / 2) * daysOverdue ?t ?e"
    using days by (auto simp: sw accrued_def duePenalty_def)
  show "principalAmount (emis (fst (processOverdueEMIs now s)) ! i) = principalAmount ?e"
    by (simp add: sw accrued_def)
  show "interestAmount (emis (fst (processOverdueEMIs now s)) ! i) = interestAmount ?e"
    by (simp add: sw accrued_def)
  show "dueDate (emis (fst (processOverdueEMIs now s)) ! i) = dueDate ?e"
    by (simp add: sw accrued_def)
  show "totalAmount (emis (fst (processOverdueEMIs now s)) ! i) =
          principalAmount (emis (fst (processOverdueEMIs now s)) ! i)
        + interestAmount (emis (fst (processOverdueEMIs now s)) ! i)
        + emi.penaltyAmount (emis (fst (processOverdueEMIs now s)) ! i)"
    if "emi.penaltyAmount ?e \<noteq> duePenalty ?t ?e
        \<or> totalAmount ?e = principalAmount ?e + interestAmount ?e + emi.penaltyAmount ?e"
    using that days by (auto simp: sw accrued_def)
qed

theorem sweep_emi_after_witness:
  "0 < length (emis febStore)
   \<and> emi.status (emis febStore ! 0) \<in> {Pending, Overdue}
   \<and> daysOverdue (setHours0 febNow) (emis febStore ! 0) = 3
   \<and> emi.status (emis (fst (processOverdueEMIs febNow febStore)) ! 0) = Overdue
   \<and> emi.penaltyAmount (emis (fst (processOverdueEMIs febNow febStore)) ! 0) = 75
   \<and> totalAmount (emis (fst (processOverdueEMIs febNow febStore)) ! 0) = 135
   \<and> setHours0 febNow \<le> setHours0 (dueDate (emis febStore ! 1))
   \<and> emis (fst (processOverdueEMIs febNow febStore)) ! 1 = emis febStore ! 1
   \<and> setHours0 (dueDate (emis febStore ! 2)) = addDays (setHours0 febNow) (- 1)
   \<and> daysOverdue (setHours0 febNow) (emis febStore ! 2) = 1"
  using sweep_emi_after [of 0 febStore febNow] sweep_emi_after [of 1 febStore febNow]
    sweep_emi_after [of 2 febStore febNow]
  by (simp add: example_defs)

text \<open>
  An overdue EMI (principal 50, interest 10, due three days ago) that already stores the
  penalty 75 next to a total of 60 keeps that total: the sweep does not look at
  \<open>totalAmount\<close> when the penalty is unchanged.
\<close>

theorem sweep_total_counterexample:
  "emi.status (emis staleStore ! 0) = Overdue
   \<and> daysOverdue (setHours0 febNow) (emis staleStore ! 0) = 3
   \<and> principalAmount (emis (fst (processOverdueEMIs febNow staleStore)) ! 0) = 50
   \<and> interestAmount (emis (fst (processOverdueEMIs febNow staleStore)) ! 0) = 10
   \<and> emi.penaltyAmount (emis (fst (processOverdueEMIs febNow staleStore)) ! 0) = 75
   \<and> totalAmount (emis (fst (processOverdueEMIs febNow staleStore)) ! 0) = 60"
  by (simp add: sweep_emis swept_def isLate_def accrued_def example_defs)

section \<open>What a sweep counts and what it adds to the loans\<close>

lemma sum_list_nth: "(\<Sum>e\<leftarrow>es. g e) = (\<Sum>j\<leftarrow>[0..<length es]. g (es ! j))"
proof -
  have "map g es = map g (map ((!) es) [0..<length es])"
    by (simp only: map_nth)
  then show ?thesis by (simp add: comp_def)
qed

lemma count_nth: "length (filter P es) = length (filter (\<lambda>j. P (es ! j)) [0..<length es])"
proof -
  have "filter P es = filter P (map ((!) es) [0..<length es])"
    by (simp only: map_nth)
  also have "\<dots> = map ((!) es) (filter (\<lambda>j. P (es ! j)) [0..<length es])"
    by (simp add: filter_map comp_def)
  finally show ?thesis by simp
qed

lemma sweep_loans_nth:
  assumes "l < length (loans s)"
  shows "loans (fst (processOverdueEMIs now s)) ! l =
           (loans s ! l)\<lparr>loan.penaltyAmount := loan.penaltyAmount (loans s ! l)
              + (\<Sum>j\<leftarrow>[0..<length (emis s)]. if loanId (emis s ! j) = l
                   then emi.penaltyAmount (emis (fst (processOverdueEMIs now s)) ! j)
                        - emi.penaltyAmount (emis s ! j)
                   else 0)\<rparr>"
proof -
  have "(\<Sum>j\<leftarrow>[0..<length (emis s)]. if loanId (emis s ! j) = l
           then emi.penaltyAmount (emis (fst (processOverdueEMIs now s)) ! j)
                - emi.penaltyAmount (emis s ! j)
           else 0)
      = (\<Sum>j\<leftarrow>[0..<length (emis s)]. if loanId (emis s ! j) = l
           then emi.penaltyAmount (swept (setHours0 now) (emis s ! j))
                - emi.penaltyAmount (emis s ! j)
           else 0)"
    by (rule arg_cong [where f = sum_list], rule map_cong) (simp_all add: sweep_nth)
  also have "\<dots> = (\<Sum>e\<leftarrow>emis s. if loanId e = l
           then emi.penaltyAmount (swept (setHours0 now) e) - emi.penaltyAmount e else 0)"
    by (rule sum_list_nth [symmetric])
  finally show ?thesis
    by (simp add: sweep_loans [OF assms])
qed

lemma sweep_count_nth:
  "snd (processOverdueEMIs now s) =
     length (filter (\<lambda>j. emis (fst (processOverdueEMIs now s)) ! j \<noteq> emis s ! j)
       [0..<length (emis s)])"
proof -
  have "filter (\<lambda>j. emis (fst (processOverdueEMIs now s)) ! j \<noteq> emis s ! j) [0..<length (emis s)]
      = filter (\<lambda>j. swept (setHours0 now) (emis s ! j) \<noteq> emis s ! j) [0..<length (emis s)]"
    by (rule filter_cong) (simp_all add: sweep_nth)
  then show ?thesis
    by (simp add: sweep_count count_nth [of _ "emis s"])
qed

text \<open>
  Claim C5, as the code has it. For a fetched EMI that is at least one day overdue, with
  \<open>newPenalty = ceil(principalAmount / 2) * daysOverdue\<close>: when its status is not overdue
  or its penalty is not \<open>newPenalty\<close>, the stored document ends with status overdue and
  penalty \<open>newPenalty\<close>, and it is rewritten and counted; its \<open>totalAmount\<close> becomes
  \<open>principalAmount + interestAmount + newPenalty\<close> when the penalty changed and stays as
  stored otherwise. When status and penalty are already right the document is neither written
  nor counted, whatever its \<open>totalAmount\<close>. The count returned is the number of documents
  that changed, and every loan's \<open>penaltyAmount\<close> grows by the sum of
  \<open>newPenalty - oldPenalty\<close> over its EMIs; no other loan field changes.
\<close>

theorem sweep_processed:
  assumes "i < length (emis s)" and "emi.status (emis s ! i) \<in> {Pending, Overdue}"
    and "1 \<le> daysOverdue (setHours0 now) (emis s ! i)"
  shows "(emi.status (emis s ! i) \<noteq> Overdue
            \<or> emi.penaltyAmount (emis s ! i) \<noteq> duePenalty (setHours0 now) (emis s ! i) \<longrightarrow>
            emi.status (emis (fst (processOverdueEMIs now s)) ! i) = Overdue
          \<and> emi.penaltyAmount (emis (fst (processOverdueEMIs now s)) ! i)
              = duePenalty (setHours0 now) (emis s ! i)
          \<and> totalAmount (emis (fst (processOverdueEMIs now s)) ! i) =
              (if emi.penaltyAmount (emis s ! i) \<noteq> duePenalty (setHours0 now) (emis s ! i)
               then principalAmount (emis s ! i) + interestAmount (emis s ! i)
                      + duePenalty (setHours0 now) (emis s ! i)
               else totalAmount (emis s ! i))
          \<and> emis (fst (processOverdueEMIs now s)) ! i \<noteq> emis s ! i)
       \<and> (emi.status (emis s ! i) = Overdue
            \<and> emi.penaltyAmount (emis s ! i) = duePenalty (setHours0 now) (emis s ! i) \<longrightarrow>
            emis (fst (processOverdueEMIs now s)) ! i = emis s ! i)
       \<and> snd (processOverdueEMIs now s) =
            length (filter (\<lambda>j. emis (fst (processOverdueEMIs now s)) ! j \<noteq> emis s ! j)
              [0..<length (emis s)])
       \<and> length (loans (fst (processOverdueEMIs now s))) = length (loans s)
       \<and> (\<forall>l < length (loans s).
            loans (fst (processOverdueEMIs now s)) ! l =
              (loans s ! l)\<lparr>loan.penaltyAmount := loan.penaltyAmount (loans s ! l)
                 + (\<Sum>j\<leftarrow>[0..<length (emis s)]. if loanId (emis s ! j) = l
                      then emi.penaltyAmount (emis (fst (processOverdueEMIs now s)) ! j)
                           - emi.penaltyAmount (emis s ! j)
                      else 0)\<rparr>)"
proof -
  let ?t = "setHours0 now" and ?e = "emis s ! i"
  have late: "isLate ?t ?e"
    using assms(2,3) by (simp add: isLate_def late_iff_days)
  then have sw: "emis (fst (processOverdueEMIs now s)) ! i = accrued ?t ?e"
    by (simp add: sweep_nth [OF assms(1)] swept_def)
  have days: "\<not> daysOverdue ?t ?e \<le> 0"
    using assms(3) by simp
  have changed: "accrued ?t ?e \<noteq> ?e"
    if "emi.status ?e \<noteq> Overdue \<or> emi.penaltyAmount ?e \<noteq> duePenalty ?t ?e"
  proof
    assume eq: "accrued ?t ?e = ?e"
    then have "emi.status (accrued ?t ?e) = emi.status ?e"
      and "emi.penaltyAmount (accrued ?t ?e) = emi.penaltyAmount ?e"
      by simp_all
    with that days show False
      by (auto simp: accrued_def split: if_splits)
  qed
  have same: "accrued ?t ?e = ?e"
    if "emi.status ?e = Overdue \<and> emi.penaltyAmount ?e = duePenalty ?t ?e"
    using that days by (simp add: accrued_def)
  show ?thesis
    unfolding sw
    using changed same days sweep_count_nth [of now s] sweep_loans_length [of now s]
      sweep_loans_nth [of _ s now]
    by (auto simp: accrued_def)
qed

theorem sweep_processed_witness:
  "0 < length (emis febStore)
   \<and> emi.status (emis febStore ! 0) = Pending
   \<and> daysOverdue (setHours0 febNow) (emis febStore ! 0) = 3
   \<and> emi.status (emis (fst (processOverdueEMIs febNow febStore)) ! 0) = Overdue
   \<and> emi.penaltyAmount (emis (fst (processOverdueEMIs febNow febStore)) ! 0) = 75
   \<and> totalAmount (emis (fst (processOverdueEMIs febNow febStore)) ! 0) = 135
   \<and> snd (processOverdueEMIs febNow febStore) = 2
   \<and> loan.penaltyAmount (loans febStore ! 0) = 0
   \<and> loan.penaltyAmount (loans (fst (processOverdueEMIs febNow febStore)) ! 0) = 100
   \<and> emi.status (emis staleStore ! 0) = Overdue
   \<and> emi.penaltyAmount (emis staleStore ! 0) = duePenalty (setHours0 febNow) (emis staleStore ! 0)
   \<and> emis (fst (processOverdueEMIs febNow staleStore)) ! 0 = emis staleStore ! 0"
  using sweep_processed [of 0 febStore febNow] sweep_processed [of 0 staleStore febNow]
  by (simp add: sweep_eval example_defs)

text \<open>
  An overdue EMI with the right penalty (75) and a stale total (60 instead of 135) is not
  repaired and not counted: the sweep returns the store as it was and the count 0.
\<close>

theorem sweep_repair_counterexample:
  "emi.status (emis staleStore ! 0) = Overdue
   \<and> daysOverdue (setHours0 febNow) (emis staleStore ! 0) = 3
   \<and> emi.penaltyAmount (emis staleStore ! 0) = 75
   \<and> duePenalty (setHours0 febNow) (emis staleStore ! 0) = 75
   \<and> totalAmount (emis staleStore ! 0) = 60
   \<and> principalAmount (emis staleStore ! 0) + interestAmount (emis staleStore ! 0)
       + duePenalty (setHours0 febNow) (emis staleStore ! 0) = 135
   \<and> processOverdueEMIs febNow staleStore = (staleStore, 0)"
  by (simp add: sweep_eval example_defs)

section \<open>The waiver\<close>

text \<open>
  Claim C7. \<^verbatim>\<open>clear-overdue\<close> answers 200 exactly when the EMI exists, is not paid and
  has a positive penalty; with any other answer the store is left as it was. On success the EMI
  gets penalty 0 and \<open>totalAmount = principalAmount + interestAmount\<close> (every other field,
  the status included, and every other EMI stay), and the parent loan, when it exists, gets
  \<open>penaltyAmount = max 0 (penaltyAmount - waived)\<close>.
\<close>

theorem clearOverdue_waiver:
  "(fst (clearOverdue i s) = Ok200 ''Overdue charges cleared''
      \<longleftrightarrow> i < length (emis s) \<and> emi.status (emis s ! i) \<noteq> Paid
          \<and> 0 < emi.penaltyAmount (emis s ! i))
   \<and> (fst (clearOverdue i s) \<noteq> Ok200 ''Overdue charges cleared'' \<longrightarrow> snd (clearOverdue i s) = s)
   \<and> (i < length (emis s) \<and> emi.status (emis s ! i) \<noteq> Paid
        \<and> 0 < emi.penaltyAmount (emis s ! i) \<longrightarrow>
        emis (snd (clearOverdue i s)) =
          (emis s)[i := (emis s ! i)\<lparr>emi.penaltyAmount := 0,
             totalAmount := principalAmount (emis s ! i) + interestAmount (emis s ! i)\<rparr>]
      \<and> loans (snd (clearOverdue i s)) =
          (if loanId (emis s ! i) < length (loans s) then
             (loans s)[loanId (emis s ! i) := (loans s ! loanId (emis s ! i))
                \<lparr>loan.penaltyAmount :=
                   max 0 (loan.penaltyAmount (loans s ! loanId (emis s ! i))
                          - emi.penaltyAmount (emis s ! i))\<rparr>]
           else loans s))"
  by (simp add: clearOverdue_def EMI_findById_def EMI_save_def Loan_findById_def Loan_save_def
      Let_def)

theorem clearOverdue_waiver_witness:
  "0 < length (emis waiverStore)
   \<and> emi.status (emis waiverStore ! 0) \<noteq> Paid
   \<and> emi.penaltyAmount (emis waiverStore ! 0) = 75
   \<and> loan.penaltyAmount (loans waiverStore ! 0) = 200
   \<and> fst (clearOverdue 0 waiverStore) = Ok200 ''Overdue charges cleared''
   \<and> emi.penaltyAmount (emis (snd (clearOverdue 0 waiverStore)) ! 0) = 0
   \<and> totalAmount (emis (snd (clearOverdue 0 waiverStore)) ! 0) = 60
   \<and> emi.status (emis (snd (clearOverdue 0 waiverStore)) ! 0) = Overdue
   \<and> loan.penaltyAmount (loans (snd (clearOverdue 0 waiverStore)) ! 0) = 125
   \<and> emi.status (emis paidStore ! 1) = Paid
   \<and> fst (clearOverdue 1 paidStore) = Err400 ''EMI already paid''
   \<and> snd (clearOverdue 1 paidStore) = paidStore
   \<and> emi.penaltyAmount (emis paidStore ! 2) = 0
   \<and> fst (clearOverdue 2 paidStore) = Err400 ''No overdue charges to clear''
   \<and> snd (clearOverdue 2 paidStore) = paidStore"
  using clearOverdue_waiver [of 0 waiverStore] clearOverdue_waiver [of 1 paidStore]
    clearOverdue_waiver [of 2 paidStore]
  by (simp add: example_defs paidStore_def clearOverdue_def EMI_findById_def)

section \<open>A sweep after a waiver\<close>

lemma clearOverdue_emis:
  assumes "i < length (emis s)" and "emi.status (emis s ! i) \<noteq> Paid"
    and "0 < emi.penaltyAmount (emis s ! i)"
  shows "emis (snd (clearOverdue i s)) =
           (emis s)[i := (emis s ! i)\<lparr>emi.penaltyAmount := 0,
              totalAmount := principalAmount (emis s ! i) + interestAmount (emis s ! i)\<rparr>]"
  using assms
  by (simp add: clearOverdue_def EMI_findById_def EMI_save_def Loan_findById_def Loan_save_def
      Let_def)

lemma accrued_penalty:
  "1 \<le> daysOverdue t e \<Longrightarrow> emi.penaltyAmount (accrued t e) = duePenalty t e"
  by (simp add: accrued_def)

lemma clearOverdue_loans:
  assumes "i < length (emis s)" and "emi.status (emis s ! i) \<noteq> Paid"
    and "0 < emi.penaltyAmount (emis s ! i)"
  shows "loans (snd (clearOverdue i s)) =
           (loans s)[loanId (emis s ! i) :=
              (loans s ! loanId (emis s ! i))\<lparr>loan.penaltyAmount :=
                 max 0 (loan.penaltyAmount (loans s ! loanId (emis s ! i))
                          - emi.penaltyAmount (emis s ! i))\<rparr>]"
  using assms
  by (simp add: clearOverdue_def EMI_findById_def EMI_save_def Loan_findById_def Loan_save_def
      Let_def list_update_beyond)

lemma sum_list_split:
  fixes f :: "nat \<Rightarrow> int"
  assumes "i < n"
  shows "(\<Sum>j\<leftarrow>[0..<n]. f j) = f i + (\<Sum>j\<leftarrow>[0..<n]. if j = i then 0 else f j)"
proof -
  have "(\<Sum>j\<leftarrow>[0..<n]. f j) = (\<Sum>j\<leftarrow>[0..<n]. (if j = i then f i else 0) + (if j = i then 0 else f j))"
    by (rule arg_cong [where f = sum_list], rule map_cong) simp_all
  also have "\<dots> = (\<Sum>j\<leftarrow>[0..<n]. if j = i then f i else 0)
                   + (\<Sum>j\<leftarrow>[0..<n]. if j = i then 0 else f j)"
    by (rule sum_list_addf)
  also have "(\<Sum>j\<leftarrow>[0..<n]. if j = i then f i else 0) = f i"
    using assms by (simp add: sum_list_sum_nth)
  finally show ?thesis .
qed

text \<open>
  Claim C8, as the code has it. A successful waiver leaves the EMI with penalty 0 and takes
  the old penalty off the loan (never below 0), and nothing records that the EMI was waived:
  a later sweep whose today is after the due date sets the penalty of the EMI to
  \<open>ceil(principalAmount / 2) * daysOverdue\<close> again and adds that amount to the
  \<open>penaltyAmount\<close> of the loan again, next to what the other EMIs of the loan accrue in
  the same sweep; a sweep whose today is not after the due date leaves the EMI at 0 and adds
  nothing for it.
\<close>

theorem waiver_then_sweep:
  assumes "i < length (emis s)" and "emi.status (emis s ! i) \<noteq> Paid"
    and "0 < emi.penaltyAmount (emis s ! i)"
  shows "emi.penaltyAmount (emis (snd (clearOverdue i s)) ! i) = 0
       \<and> emi.penaltyAmount (emis (fst (processOverdueEMIs now (snd (clearOverdue i s)))) ! i) =
           (if dueDate (emis s ! i) < setHours0 now
            then Math_ceil (of_int (principalAmount (emis s ! i)) / 2)
                   * daysOverdue (setHours0 now) (emis s ! i)
            else 0)
       \<and> (loanId (emis s ! i) < length (loans s) \<longrightarrow>
            loan.penaltyAmount (loans (snd (clearOverdue i s)) ! loanId (emis s ! i))
              = max 0 (loan.penaltyAmount (loans s ! loanId (emis s ! i))
                         - emi.penaltyAmount (emis s ! i))
          \<and> loan.penaltyAmount
                (loans (fst (processOverdueEMIs now (snd (clearOverdue i s)))) ! loanId (emis s ! i))
              = loan.penaltyAmount (loans (snd (clearOverdue i s)) ! loanId (emis s ! i))
                + (if dueDate (emis s ! i) < setHours0 now
                   then Math_ceil (of_int (principalAmount (emis s ! i)) / 2)
                          * daysOverdue (setHours0 now) (emis s ! i)
                   else 0)
                + (\<Sum>j\<leftarrow>[0..<length (emis s)].
                     if j = i then 0
                     else if loanId (emis s ! j) = loanId (emis s ! i)
                     then emi.penaltyAmount
                            (emis (fst (processOverdueEMIs now (snd (clearOverdue i s)))) ! j)
                          - emi.penaltyAmount (emis s ! j)
                     else 0))"
proof -
  let ?s1 = "snd (clearOverdue i s)" and ?t = "setHours0 now"
  let ?s2 = "fst (processOverdueEMIs now ?s1)"
  let ?L = "loanId (emis s ! i)"
  let ?e1 = "(emis s ! i)\<lparr>emi.penaltyAmount := 0,
               totalAmount := principalAmount (emis s ! i) + interestAmount (emis s ! i)\<rparr>"
  let ?new = "if dueDate (emis s ! i) < ?t
              then Math_ceil (of_int (principalAmount (emis s ! i)) / 2) * daysOverdue ?t (emis s ! i)
              else 0"
  have e1: "emis ?s1 = (emis s)[i := ?e1]"
    by (rule clearOverdue_emis [OF assms])
  then have len: "i < length (emis ?s1)" and nth: "emis ?s1 ! i = ?e1"
    and len1: "length (emis ?s1) = length (emis s)"
    using assms(1) by simp_all
  have other: "emis ?s1 ! j = emis s ! j" if "j \<noteq> i" for j
    using that by (simp add: e1)
  have st: "emi.status ?e1 \<in> {Pending, Overdue}"
    using assms(2) by (cases "emi.status (emis s ! i)") simp_all
  have pen1: "emi.penaltyAmount (emis ?s1 ! i) = 0"
    by (simp add: nth)
  have pen2: "emi.penaltyAmount (emis ?s2 ! i) = ?new"
  proof (cases "dueDate (emis s ! i) < ?t")
    case True
    then have days: "1 \<le> daysOverdue ?t ?e1"
      using late_iff_days [of ?e1 now] by simp
    from True st have "isLate ?t ?e1"
      by (simp add: isLate_def)
    then have "emis ?s2 ! i = accrued ?t ?e1"
      by (simp add: sweep_nth [OF len] nth swept_def)
    then have "emi.penaltyAmount (emis ?s2 ! i) = duePenalty ?t ?e1"
      by (simp add: accrued_penalty [OF days])
    with True show ?thesis
      by (simp add: duePenalty_def daysOverdue_def)
  next
    case False
    then have "\<not> isLate ?t ?e1"
      by (simp add: isLate_def)
    then have "emis ?s2 ! i = ?e1"
      by (simp add: sweep_nth [OF len] nth swept_def)
    with False show ?thesis by simp
  qed
  have loan: "loan.penaltyAmount (loans ?s1 ! ?L)
                = max 0 (loan.penaltyAmount (loans s ! ?L) - emi.penaltyAmount (emis s ! i))
            \<and> loan.penaltyAmount (loans ?s2 ! ?L)
                = loan.penaltyAmount (loans ?s1 ! ?L) + ?new
                  + (\<Sum>j\<leftarrow>[0..<length (emis s)].
                       if j = i then 0
                       else if loanId (emis s ! j) = ?L
                       then emi.penaltyAmount (emis ?s2 ! j) - emi.penaltyAmount (emis s ! j)
                       else 0)"
    if L: "?L < length (loans s)"
  proof -
    have l1: "loans ?s1 = (loans s)[?L := (loans s ! ?L)\<lparr>loan.penaltyAmount :=
                 max 0 (loan.penaltyAmount (loans s ! ?L) - emi.penaltyAmount (emis s ! i))\<rparr>]"
      by (rule clearOverdue_loans [OF assms])
    then have L1: "?L < length (loans ?s1)"
      using L by simp
    have a: "loan.penaltyAmount (loans ?s1 ! ?L)
               = max 0 (loan.penaltyAmount (loans s ! ?L) - emi.penaltyAmount (emis s ! i))"
      using L by (simp add: l1)
    let ?f = "\<lambda>j. if loanId (emis ?s1 ! j) = ?L
                 then emi.penaltyAmount (emis ?s2 ! j) - emi.penaltyAmount (emis ?s1 ! j)
                 else 0"
    have "loan.penaltyAmount (loans ?s2 ! ?L)
            = loan.penaltyAmount (loans ?s1 ! ?L) + (\<Sum>j\<leftarrow>[0..<length (emis s)]. ?f j)"
      by (simp add: sweep_loans_nth [OF L1] len1)
    also have "(\<Sum>j\<leftarrow>[0..<length (emis s)]. ?f j)
            = ?f i + (\<Sum>j\<leftarrow>[0..<length (emis s)]. if j = i then 0 else ?f j)"
      by (rule sum_list_split [OF assms(1)])
    also have "?f i = ?new"
      by (simp only: pen2 pen1) (simp add: nth)
    also have "(\<Sum>j\<leftarrow>[0..<length (emis s)]. if j = i then 0 else ?f j)
            = (\<Sum>j\<leftarrow>[0..<length (emis s)].
                 if j = i then 0
                 else if loanId (emis s ! j) = ?L
                 then emi.penaltyAmount (emis ?s2 ! j) - emi.penaltyAmount (emis s ! j)
                 else 0)"
      by (rule arg_cong [where f = sum_list], rule map_cong) (simp_all add: other)
    finally show ?thesis
      using a by simp
  qed
  show ?thesis
    using pen1 pen2 loan by blast
qed

theorem waiver_then_sweep_witness:
  "0 < length (emis waiverStore)
   \<and> emi.status (emis waiverStore ! 0) \<noteq> Paid
   \<and> 0 < emi.penaltyAmount (emis waiverStore ! 0)
   \<and> loanId (emis waiverStore ! 0) < length (loans waiverStore)
   \<and> emi.penaltyAmount (emis (snd (clearOverdue 0 waiverStore)) ! 0) = 0
   \<and> loan.penaltyAmount (loans (snd (clearOverdue 0 waiverStore)) ! 0) = 125
   \<and> emi.penaltyAmount
        (emis (fst (processOverdueEMIs (13 * msPerDay) (snd (clearOverdue 0 waiverStore)))) ! 0) = 0
   \<and> loan.penaltyAmount
        (loans (fst (processOverdueEMIs (13 * msPerDay) (snd (clearOverdue 0 waiverStore)))) ! 0) = 125
   \<and> emi.penaltyAmount
        (emis (fst (processOverdueEMIs (17 * msPerDay) (snd (clearOverdue 0 waiverStore)))) ! 0) = 100
   \<and> loan.penaltyAmount
        (loans (fst (processOverdueEMIs (17 * msPerDay) (snd (clearOverdue 0 waiverStore)))) ! 0) = 225"
  using waiver_then_sweep [of 0 waiverStore "13 * msPerDay"]
    waiver_then_sweep [of 0 waiverStore "17 * msPerDay"]
  by (simp add: example_defs)

text \<open>
  The EMI of the waiver example (principal 50, due on day 13), waived and then swept on day
  17, is charged 100 again, and the loan total goes from 125 to 225.
\<close>

theorem waiver_reaccrued_counterexample:
  "emi.status (emis waiverStore ! 0) = Overdue
   \<and> fst (clearOverdue 0 waiverStore) = Ok200 ''Overdue charges cleared''
   \<and> emi.penaltyAmount (emis (snd (clearOverdue 0 waiverStore)) ! 0) = 0
   \<and> emi.status (emis (snd (clearOverdue 0 waiverStore)) ! 0) = Overdue
   \<and> emi.penaltyAmount
        (emis (fst (processOverdueEMIs (17 * msPerDay) (snd (clearOverdue 0 waiverStore)))) ! 0) = 100
   \<and> loan.penaltyAmount
        (loans (fst (processOverdueEMIs (17 * msPerDay) (snd (clearOverdue 0 waiverStore)))) ! 0) = 225"
  by (simp add: clearOverdue_def EMI_findById_def sweep_eval example_defs)

section \<open>The generated schedule\<close>

lemma Math_ceil_div: "Math_ceil (of_int a / of_int b) = - (- a div b)"
  by (simp add: Math_ceil_def ceiling_divide_eq_div)

lemma Math_ceil_interest: "Math_ceil (of_int a * (20 / 100) / of_int n) = - (- a div (5 * n))"
proof -
  have "(of_int a * (20 / 100) / of_int n :: rat) = of_int a / of_int (5 * n)"
    by simp
  then show ?thesis
    by (simp only: Math_ceil_div)
qed

lemma ceil_div_bounds:
  assumes "0 < (n::int)"
  shows "a \<le> n * (- (- a div n))" and "n * (- (- a div n)) \<le> a + n - 1"
proof -
  define d r where "d = - a div n" and "r = (- a) mod n"
  have "n * d + r = - a"
    by (simp add: d_def r_def)
  moreover have "0 \<le> r" and "r < n"
    using assms by (simp_all add: r_def)
  ultimately have "a \<le> n * (- d)" and "n * (- d) \<le> a + n - 1"
    by simp_all
  then show "a \<le> n * (- (- a div n))" and "n * (- (- a div n)) \<le> a + n - 1"
    by (simp_all only: d_def)
qed

lemma generate_emis:
  "fst (generateEMISchedule now now2 (lid, loan0) s) =
     map (newEMI lid (loan.userId loan0)
            (Math_ceil (of_int (amount loan0) / of_int (totalDays loan0)))
            (Math_ceil (of_int (amount loan0) * (20 / 100) / of_int (totalDays loan0)))
            (setHours0 (addDays now 1)))
       [1..totalDays loan0]"
  by (simp add: generateEMISchedule_def Let_def newEMI_def [abs_def])

lemma generate_store:
  "snd (generateEMISchedule now now2 (lid, loan0) s) =
     \<lparr>emis = emis s @ fst (generateEMISchedule now now2 (lid, loan0) s),
      loans = (loans s)[lid := loan0\<lparr>startDate := Some (setHours0 (addDays now 1)),
                 endDate := Some (addDays (setHours0 (addDays now 1)) (totalDays loan0 - 1)),
                 approvedAt := Some now2\<rparr>]\<rparr>"
  by (simp add: generateEMISchedule_def Let_def EMI_insertMany_def Loan_save_def)

lemma tomorrow_midnight: "setHours0 (addDays now 1) = addDays (setHours0 now) 1"
  by (simp add: setHours0_def addDays_def)

lemma tomorrow_after: "now < addDays (setHours0 now) 1"
  using setHours0_gt [of now] by (simp add: addDays_def)

lemma generate_length:
  "length (fst (generateEMISchedule now now2 (lid, loan0) s)) = nat (totalDays loan0)"
  by (simp add: generate_emis)

lemma generate_nth:
  assumes "1 \<le> k" and "k \<le> totalDays loan0"
  shows "fst (generateEMISchedule now now2 (lid, loan0) s) ! nat (k - 1) =
           newEMI lid (loan.userId loan0)
             (Math_ceil (of_int (amount loan0) / of_int (totalDays loan0)))
             (Math_ceil (of_int (amount loan0) * (20 / 100) / of_int (totalDays loan0)))
             (setHours0 (addDays now 1)) k"
proof -
  have "nat (k - 1) < length [1..totalDays loan0]"
    using assms by simp
  moreover have "[1..totalDays loan0] ! nat (k - 1) = k"
    using assms by simp
  ultimately show ?thesis
    by (simp add: generate_emis del: length_upto)
qed

text \<open>
  Claim C3. For a loan with \<open>totalDays \<ge> 1\<close> and \<open>amount \<ge> 0\<close> that is in the store,
  \<^verbatim>\<open>generateEMISchedule\<close> creates exactly \<open>totalDays\<close> EMIs; EMI \<open>k\<close> has day number
  \<open>k\<close>, due date start + (k - 1) days, status pending, penalty 0, principal
  \<open>ceil(amount / totalDays)\<close>, interest \<open>ceil(amount * 0.20 / totalDays)\<close> and their sum as
  total. Both ceilings are the least integers whose multiples cover the amount, and are not
  negative. The start is tomorrow's local midnight: later than the approval instant and a
  whole day. The EMIs are appended to the collection, and the loan is saved with that start,
  the end \<open>start + (totalDays - 1)\<close> days and \<open>approvedAt\<close>; no other loan changes.
\<close>

theorem generateEMISchedule_schedule:
  assumes "1 \<le> totalDays loan0" and "0 \<le> amount loan0" and "lid < length (loans s)"
  shows "length (fst (generateEMISchedule now now2 (lid, loan0) s)) = nat (totalDays loan0)
       \<and> (\<forall>k. 1 \<le> k \<and> k \<le> totalDays loan0 \<longrightarrow>
            dayNumber (fst (generateEMISchedule now now2 (lid, loan0) s) ! nat (k - 1)) = k
          \<and> dueDate (fst (generateEMISchedule now now2 (lid, loan0) s) ! nat (k - 1))
              = addDays (addDays (setHours0 now) 1) (k - 1)
          \<and> emi.status (fst (generateEMISchedule now now2 (lid, loan0) s) ! nat (k - 1)) = Pending
          \<and> emi.penaltyAmount (fst (generateEMISchedule now now2 (lid, loan0) s) ! nat (k - 1)) = 0
          \<and> principalAmount (fst (generateEMISchedule now now2 (lid, loan0) s) ! nat (k - 1))
              = Math_ceil (of_int (amount loan0) / of_int (totalDays loan0))
          \<and> interestAmount (fst (generateEMISchedule now now2 (lid, loan0) s) ! nat (k - 1))
              = Math_ceil (of_int (amount loan0) * (20 / 100) / of_int (totalDays loan0))
          \<and> totalAmount (fst (generateEMISchedule now now2 (lid, loan0) s) ! nat (k - 1))
              = principalAmount (fst (generateEMISchedule now now2 (lid, loan0) s) ! nat (k - 1))
                + interestAmount (fst (generateEMISchedule now now2 (lid, loan0) s) ! nat (k - 1))
          \<and> loanId (fst (generateEMISchedule now now2 (lid, loan0) s) ! nat (k - 1)) = lid
          \<and> emi.userId (fst (generateEMISchedule now now2 (lid, loan0) s) ! nat (k - 1))
              = loan.userId loan0)
       \<and> 0 \<le> Math_ceil (of_int (amount loan0) / of_int (totalDays loan0))
       \<and> 0 \<le> Math_ceil (of_int (amount loan0) * (20 / 100) / of_int (totalDays loan0))
       \<and> amount loan0 \<le> totalDays loan0 * Math_ceil (of_int (amount loan0) / of_int (totalDays loan0))
       \<and> totalDays loan0 * Math_ceil (of_int (amount loan0) / of_int (totalDays loan0))
            \<le> amount loan0 + totalDays loan0 - 1
       \<and> amount loan0 \<le> 5 * totalDays loan0
            * Math_ceil (of_int (amount loan0) * (20 / 100) / of_int (totalDays loan0))
       \<and> 5 * totalDays loan0
            * Math_ceil (of_int (amount loan0) * (20 / 100) / of_int (totalDays loan0))
            \<le> amount loan0 + 5 * totalDays loan0 - 1
       \<and> now < addDays (setHours0 now) 1
       \<and> setHours0 (addDays (setHours0 now) 1) = addDays (setHours0 now) 1
       \<and> emis (snd (generateEMISchedule now now2 (lid, loan0) s))
            = emis s @ fst (generateEMISchedule now now2 (lid, loan0) s)
       \<and> length (loans (snd (generateEMISchedule now now2 (lid, loan0) s))) = length (loans s)
       \<and> (\<forall>l < length (loans s). l \<noteq> lid \<longrightarrow>
            loans (snd (generateEMISchedule now now2 (lid, loan0) s)) ! l = loans s ! l)
       \<and> loans (snd (generateEMISchedule now now2 (lid, loan0) s)) ! lid =
            loan0\<lparr>startDate := Some (addDays (setHours0 now) 1),
                   endDate := Some (addDays (addDays (setHours0 now) 1) (totalDays loan0 - 1)),
                   approvedAt := Some now2\<rparr>"
proof -
  have n: "0 < totalDays loan0" and n5: "0 < 5 * totalDays loan0"
    using assms(1) by simp_all
  have p: "amount loan0 \<le> totalDays loan0 * Math_ceil (of_int (amount loan0) / of_int (totalDays loan0))"
    "totalDays loan0 * Math_ceil (of_int (amount loan0) / of_int (totalDays loan0))
       \<le> amount loan0 + totalDays loan0 - 1"
    using ceil_div_bounds [OF n, of "amount loan0"] by (simp_all only: Math_ceil_div)
  have q: "amount loan0 \<le> 5 * totalDays loan0
             * Math_ceil (of_int (amount loan0) * (20 / 100) / of_int (totalDays loan0))"
    "5 * totalDays loan0
       * Math_ceil (of_int (amount loan0) * (20 / 100) / of_int (totalDays loan0))
       \<le> amount loan0 + 5 * totalDays loan0 - 1"
    using ceil_div_bounds [OF n5, of "amount loan0"] by (simp_all only: Math_ceil_interest)
  have "0 \<le> totalDays loan0 * Math_ceil (of_int (amount loan0) / of_int (totalDays loan0))"
    using p(1) assms(2) by linarith
  then have p0: "0 \<le> Math_ceil (of_int (amount loan0) / of_int (totalDays loan0))"
    using n by (simp add: zero_le_mult_iff)
  have "0 \<le> (5 * totalDays loan0)
          * Math_ceil (of_int (amount loan0) * (20 / 100) / of_int (totalDays loan0))"
    using q(1) assms(2) by linarith
  then have q0: "0 \<le> Math_ceil (of_int (amount loan0) * (20 / 100) / of_int (totalDays loan0))"
    using n5 by (simp only: zero_le_mult_iff) linarith
  have mid: "setHours0 (addDays (setHours0 now) 1) = addDays (setHours0 now) 1"
    using setHours0_idem [of "addDays now 1"] by (simp only: tomorrow_midnight)
  show ?thesis
    using p q p0 q0 assms(3) tomorrow_after [of now] mid
    by (simp add: generate_length generate_nth generate_store tomorrow_midnight newEMI_def)
qed

lemmas generate_eval = newLoanStore_def mkLoan_def febNow_def setHours0_def addDays_def
  msPerDay_def Math_ceil_def

theorem generateEMISchedule_schedule_witness:
  "1 \<le> totalDays (mkLoan 1000 10 0)
   \<and> 0 \<le> amount (mkLoan 1000 10 0)
   \<and> 0 < length (loans (newLoanStore 1000 10))
   \<and> length (fst (generateEMISchedule febNow febNow (0, mkLoan 1000 10 0) (newLoanStore 1000 10))) = 10
   \<and> dueDate (fst (generateEMISchedule febNow febNow (0, mkLoan 1000 10 0) (newLoanStore 1000 10)) ! 0)
       = 17 * msPerDay
   \<and> principalAmount
        (fst (generateEMISchedule febNow febNow (0, mkLoan 1000 10 0) (newLoanStore 1000 10)) ! 0) = 100
   \<and> interestAmount
        (fst (generateEMISchedule febNow febNow (0, mkLoan 1000 10 0) (newLoanStore 1000 10)) ! 0) = 20
   \<and> totalAmount
        (fst (generateEMISchedule febNow febNow (0, mkLoan 1000 10 0) (newLoanStore 1000 10)) ! 0) = 120
   \<and> dayNumber
        (fst (generateEMISchedule febNow febNow (0, mkLoan 1000 10 0) (newLoanStore 1000 10)) ! 9) = 10
   \<and> dueDate (fst (generateEMISchedule febNow febNow (0, mkLoan 1000 10 0) (newLoanStore 1000 10)) ! 9)
       = 26 * msPerDay
   \<and> startDate
        (loans (snd (generateEMISchedule febNow febNow (0, mkLoan 1000 10 0) (newLoanStore 1000 10))) ! 0)
       = Some (17 * msPerDay)
   \<and> endDate
        (loans (snd (generateEMISchedule febNow febNow (0, mkLoan 1000 10 0) (newLoanStore 1000 10))) ! 0)
       = Some (26 * msPerDay)
   \<and> approvedAt
        (loans (snd (generateEMISchedule febNow febNow (0, mkLoan 1000 10 0) (newLoanStore 1000 10))) ! 0)
       = Some febNow"
proof -
  have h: "1 \<le> totalDays (mkLoan 1000 10 0)" "0 \<le> amount (mkLoan 1000 10 0)"
    "0 < length (loans (newLoanStore 1000 10))"
    by (simp_all add: generate_eval)
  note T = generateEMISchedule_schedule [OF h, of febNow febNow]
  note K = T [THEN conjunct2, THEN conjunct1, rule_format]
  show ?thesis
    using T K [of 1] K [of 10] by (simp add: generate_eval)
qed

lemma generate_sum:
  "(\<Sum>e\<leftarrow>fst (generateEMISchedule now now2 (lid, loan0) s). principalAmount e + interestAmount e)
     = int (nat (totalDays loan0))
         * (Math_ceil (of_int (amount loan0) / of_int (totalDays loan0))
            + Math_ceil (of_int (amount loan0) * (20 / 100) / of_int (totalDays loan0)))"
  by (simp add: generate_emis comp_def newEMI_def sum_list_triv)

text \<open>
  Claim C4, as the code has it. The scheduled principal and interest add up to at least
  \<open>1.20 * amount\<close>. The principal part exceeds \<open>amount\<close> by at most \<open>totalDays - 1\<close>,
  the interest part exceeds \<open>0.20 * amount\<close> by less than \<open>totalDays\<close>, and together the
  surplus is at most \<open>2 * totalDays - 1.2\<close>: each of the two ceilings rounds on its own.
\<close>

theorem generateEMISchedule_surplus:
  assumes "1 \<le> totalDays loan0" and "0 \<le> amount loan0"
  shows "(12 / 10) * of_int (amount loan0)
           \<le> (of_int (\<Sum>e\<leftarrow>fst (generateEMISchedule now now2 (lid, loan0) s).
                          principalAmount e + interestAmount e) :: rat)
       \<and> (of_int (\<Sum>e\<leftarrow>fst (generateEMISchedule now now2 (lid, loan0) s).
                      principalAmount e + interestAmount e) :: rat)
            - (12 / 10) * of_int (amount loan0)
           \<le> 2 * of_int (totalDays loan0) - 12 / 10
       \<and> amount loan0
           \<le> (\<Sum>e\<leftarrow>fst (generateEMISchedule now now2 (lid, loan0) s). principalAmount e)
       \<and> (\<Sum>e\<leftarrow>fst (generateEMISchedule now now2 (lid, loan0) s). principalAmount e)
            - amount loan0 \<le> totalDays loan0 - 1
       \<and> (20 / 100) * of_int (amount loan0)
           \<le> (of_int (\<Sum>e\<leftarrow>fst (generateEMISchedule now now2 (lid, loan0) s). interestAmount e) :: rat)
       \<and> (of_int (\<Sum>e\<leftarrow>fst (generateEMISchedule now now2 (lid, loan0) s). interestAmount e) :: rat)
            - (20 / 100) * of_int (amount loan0) < of_int (totalDays loan0)"
proof -
  define n a where "n = totalDays loan0" and "a = amount loan0"
  define p q where "p = Math_ceil (of_int a / of_int n)"
    and "q = Math_ceil (of_int a * (20 / 100) / of_int n)"
  have n: "0 < n" and n5: "0 < 5 * n"
    using assms(1) by (simp_all add: n_def)
  have p: "a \<le> n * p" "n * p \<le> a + n - 1"
    using ceil_div_bounds [OF n, of a] by (simp_all only: p_def Math_ceil_div)
  have q: "a \<le> 5 * n * q" "5 * n * q \<le> a + 5 * n - 1"
    using ceil_div_bounds [OF n5, of a] by (simp_all only: q_def Math_ceil_interest)
  have sp: "(\<Sum>e\<leftarrow>fst (generateEMISchedule now now2 (lid, loan0) s). principalAmount e) = n * p"
    using n by (simp add: generate_emis comp_def newEMI_def sum_list_triv n_def a_def p_def)
  have sq: "(\<Sum>e\<leftarrow>fst (generateEMISchedule now now2 (lid, loan0) s). interestAmount e) = n * q"
    using n by (simp add: generate_emis comp_def newEMI_def sum_list_triv n_def a_def q_def)
  have st: "(\<Sum>e\<leftarrow>fst (generateEMISchedule now now2 (lid, loan0) s).
               principalAmount e + interestAmount e) = n * p + n * q"
    using n by (simp add: generate_sum n_def a_def p_def q_def distrib_left)
  have r1: "(12 / 10) * of_int a \<le> (of_int (n * p + n * q) :: rat)"
  proof -
    have "6 * a \<le> 5 * (n * p + n * q)" using p(1) q(1) by simp
    then have "(of_int (6 * a) :: rat) \<le> of_int (5 * (n * p + n * q))"
      by (simp only: of_int_le_iff)
    then show ?thesis by simp
  qed
  have r2: "(of_int (n * p + n * q) :: rat) - (12 / 10) * of_int a \<le> 2 * of_int n - 12 / 10"
  proof -
    have "5 * (n * p + n * q) - 6 * a \<le> 10 * n - 6" using p(2) q(2) by simp
    then have "(of_int (5 * (n * p + n * q) - 6 * a) :: rat) \<le> of_int (10 * n - 6)"
      by (simp only: of_int_le_iff)
    then show ?thesis by simp
  qed
  have r3: "(20 / 100) * of_int a \<le> (of_int (n * q) :: rat)"
  proof -
    have "(of_int a :: rat) \<le> of_int (5 * n * q)" using q(1) by (simp only: of_int_le_iff)
    then show ?thesis by simp
  qed
  have r4: "(of_int (n * q) :: rat) - (20 / 100) * of_int a < of_int n"
  proof -
    have "5 * n * q - a < 5 * n" using q(2) by simp
    then have "(of_int (5 * n * q - a) :: rat) < of_int (5 * n)"
      by (simp only: of_int_less_iff)
    then show ?thesis by simp
  qed
  show ?thesis
    unfolding sp sq st using p r1 r2 r3 r4 by (simp add: n_def a_def)
qed

theorem generateEMISchedule_surplus_witness:
  "1 \<le> totalDays (mkLoan 1001 10 0) \<and> 0 \<le> amount (mkLoan 1001 10 0)
   \<and> (\<Sum>e\<leftarrow>fst (generateEMISchedule febNow febNow (0, mkLoan 1001 10 0) (newLoanStore 1001 10)).
         principalAmount e + interestAmount e) = 1220
   \<and> (12 / 10) * of_int (amount (mkLoan 1001 10 0)) \<le> (1220 :: rat)
   \<and> (1220 :: rat) - (12 / 10) * of_int (amount (mkLoan 1001 10 0))
        = 2 * of_int (totalDays (mkLoan 1001 10 0)) - 12 / 10"
proof -
  have s: "(\<Sum>e\<leftarrow>fst (generateEMISchedule febNow febNow (0, mkLoan 1001 10 0) (newLoanStore 1001 10)).
              principalAmount e + interestAmount e) = 1220"
    by code_simp
  show ?thesis
    using generateEMISchedule_surplus [of "mkLoan 1001 10 0" febNow febNow 0 "newLoanStore 1001 10"]
    unfolding s by (simp add: mkLoan_def)
qed

text \<open>
  With amount 1000 and 3 days the schedule sums to \<open>3 * (334 + 67) = 1203\<close>: the surplus 3
  is more than \<open>totalDays - 1 = 2\<close>.
\<close>

theorem generateEMISchedule_surplus_counterexample:
  "1 \<le> totalDays (mkLoan 1000 3 0) \<and> 0 \<le> amount (mkLoan 1000 3 0)
   \<and> (\<Sum>e\<leftarrow>fst (generateEMISchedule febNow febNow (0, mkLoan 1000 3 0) (newLoanStore 1000 3)).
         principalAmount e + interestAmount e) = 1203
   \<and> (of_int (totalDays (mkLoan 1000 3 0)) - 1 :: rat)
        < 1203 - (12 / 10) * of_int (amount (mkLoan 1000 3 0))"
proof -
  have s: "(\<Sum>e\<leftarrow>fst (generateEMISchedule febNow febNow (0, mkLoan 1000 3 0) (newLoanStore 1000 3)).
              principalAmount e + interestAmount e) = 1203"
    by code_simp
  show ?thesis
    unfolding s by (simp add: mkLoan_def)
qed

lemma generate_validated:
  "generateEMISchedule_validated vE vL now now2 (lid, loan0) s =
     (if \<not> list_all vE (fst (generateEMISchedule now now2 (lid, loan0) s)) then
        (s, Inl ValidationError)
      else if \<not> vL (loan0\<lparr>startDate := Some (setHours0 (addDays now 1)),
                 endDate := Some (addDays (setHours0 (addDays now 1)) (totalDays loan0 - 1)),
                 approvedAt := Some now2\<rparr>) then
        (EMI_insertMany (fst (generateEMISchedule now now2 (lid, loan0) s)) s, Inl ValidationError)
      else
        (snd (generateEMISchedule now now2 (lid, loan0) s),
         Inr (fst (generateEMISchedule now now2 (lid, loan0) s))))"
  by (simp add: generateEMISchedule_validated_def generateEMISchedule_def Let_def
      EMI_insertMany_validated_def Loan_save_validated_def)

lemma generate_negative:
  assumes "1 \<le> totalDays loan0" and "amount loan0 < 0"
  shows "Math_ceil (of_int (amount loan0) / of_int (totalDays loan0)) \<le> 0"
proof -
  have n: "0 < totalDays loan0" using assms(1) by simp
  have "totalDays loan0 * Math_ceil (of_int (amount loan0) / of_int (totalDays loan0))
          \<le> amount loan0 + totalDays loan0 - 1"
    using ceil_div_bounds(2) [OF n, of "amount loan0"] by (simp only: Math_ceil_div)
  then have "totalDays loan0 * Math_ceil (of_int (amount loan0) / of_int (totalDays loan0))
          < totalDays loan0 * 1"
    using assms(2) by simp
  then have "Math_ceil (of_int (amount loan0) / of_int (totalDays loan0)) < 1"
    using n by (simp only: mult_less_cancel_left_pos)
  then show ?thesis by simp
qed

text \<open>
  Claim C9, as the code has it. \<^verbatim>\<open>generateEMISchedule\<close> has no check of its own: whatever
  the validators \<open>vE\<close> and \<open>vL\<close> of the two schemas are, it returns the schedule exactly
  when the EMI store accepts the batch and the loan store accepts the loan, and fails with a
  ValidationError otherwise. When the batch is rejected nothing is written. When the batch is
  accepted it is written before the loan is saved, so a loan that is then rejected leaves
  the EMIs in the store and the loan as it was. With \<open>totalDays < 1\<close> the batch is empty
  and no EMI is written, and a rejected loan means no write at all. With \<open>amount < 0\<close> and
  \<open>totalDays \<ge> 1\<close> the batch is not empty and every EMI has the principal
  \<open>ceil(amount / totalDays) \<le> 0\<close>.
\<close>

theorem generateEMISchedule_validated_failure:
  "let es = fst (generateEMISchedule now now2 (lid, loan0) s);
       loan1 = loan0\<lparr>startDate := Some (addDays (setHours0 now) 1),
                 endDate := Some (addDays (addDays (setHours0 now) 1) (totalDays loan0 - 1)),
                 approvedAt := Some now2\<rparr>;
       s1 = fst (generateEMISchedule_validated vE vL now now2 (lid, loan0) s);
       r = snd (generateEMISchedule_validated vE vL now now2 (lid, loan0) s)
   in length es = nat (totalDays loan0)
    \<and> (r = Inr es \<longleftrightarrow> list_all vE es \<and> vL loan1)
    \<and> (r = Inl ValidationError \<longleftrightarrow> \<not> (list_all vE es \<and> vL loan1))
    \<and> (\<not> list_all vE es \<longrightarrow> s1 = s)
    \<and> (list_all vE es \<longrightarrow> emis s1 = emis s @ es)
    \<and> (list_all vE es \<and> \<not> vL loan1 \<longrightarrow> loans s1 = loans s)
    \<and> (list_all vE es \<and> vL loan1 \<longrightarrow> loans s1 = (loans s)[lid := loan1])
    \<and> (totalDays loan0 < 1 \<longrightarrow> es = [] \<and> emis s1 = emis s \<and> (\<not> vL loan1 \<longrightarrow> s1 = s))
    \<and> (1 \<le> totalDays loan0 \<and> amount loan0 < 0 \<longrightarrow>
         es \<noteq> []
         \<and> (\<forall>e \<in> set es.
               principalAmount e = Math_ceil (of_int (amount loan0) / of_int (totalDays loan0))
               \<and> principalAmount e \<le> 0))"
proof -
  have empty: "fst (generateEMISchedule now now2 (lid, loan0) s) = []" if "totalDays loan0 < 1"
    using that by (simp add: generate_emis)
  have nonempty: "fst (generateEMISchedule now now2 (lid, loan0) s) \<noteq> []" if "1 \<le> totalDays loan0"
    using that by (simp add: generate_emis)
  have each: "principalAmount e = Math_ceil (of_int (amount loan0) / of_int (totalDays loan0))"
    if "e \<in> set (fst (generateEMISchedule now now2 (lid, loan0) s))" for e
    using that by (auto simp: generate_emis newEMI_def)
  show ?thesis
    unfolding Let_def generate_validated
    using generate_negative [of loan0] empty nonempty each
    by (auto simp: generate_length generate_store tomorrow_midnight EMI_insertMany_def)
qed

lemmas validated_eval = generateEMISchedule_validated_def EMI_insertMany_validated_def
  Loan_save_validated_def EMI_insertMany_def Loan_save_def specLoanValid_def specEMIValid_def
  acceptAll_def Let_def upto.simps

theorem generateEMISchedule_validated_failure_witness:
  "totalDays (mkLoan 1000 0 0) < 1
   \<and> generateEMISchedule_validated specEMIValid specLoanValid febNow febNow (0, mkLoan 1000 0 0)
         (newLoanStore 1000 0) = (newLoanStore 1000 0, Inl ValidationError)
   \<and> 1 \<le> totalDays (mkLoan (- 1000) 10 0) \<and> amount (mkLoan (- 1000) 10 0) < 0
   \<and> generateEMISchedule_validated specEMIValid specLoanValid febNow febNow
         (0, mkLoan (- 1000) 10 0) (newLoanStore (- 1000) 10)
       = (newLoanStore (- 1000) 10, Inl ValidationError)
   \<and> length (emis (fst (generateEMISchedule_validated acceptAll specLoanValid febNow febNow
         (0, mkLoan (- 1000) 10 0) (newLoanStore (- 1000) 10)))) = 10
   \<and> loans (fst (generateEMISchedule_validated acceptAll specLoanValid febNow febNow
         (0, mkLoan (- 1000) 10 0) (newLoanStore (- 1000) 10))) = loans (newLoanStore (- 1000) 10)
   \<and> snd (generateEMISchedule_validated acceptAll specLoanValid febNow febNow
         (0, mkLoan (- 1000) 10 0) (newLoanStore (- 1000) 10)) = Inl ValidationError"
  using generateEMISchedule_validated_failure [of febNow febNow 0 "mkLoan 1000 0 0"
      "newLoanStore 1000 0" specEMIValid specLoanValid]
    generateEMISchedule_validated_failure [of febNow febNow 0 "mkLoan (- 1000) 10 0"
      "newLoanStore (- 1000) 10" specEMIValid specLoanValid]
    generateEMISchedule_validated_failure [of febNow febNow 0 "mkLoan (- 1000) 10 0"
      "newLoanStore (- 1000) 10" acceptAll specLoanValid]
  by (simp add: validated_eval generateEMISchedule_def generate_eval)

text \<open>
  A loan of amount -1 over 2 days, with the validators of the spec. Both instalments round up
  to 0 (JavaScript has \<open>-0\<close>, which compares equal to 0), so the batch is the batch of the
  valid loan of amount 0 over 2 days. The two EMIs are written and the loan is then rejected:
  the call fails with a ValidationError after a write. With a loan schema that has no range
  the same call does not fail.
\<close>

theorem generateEMISchedule_partial_write_counterexample:
  "1 \<le> totalDays (mkLoan (- 1) 2 0) \<and> amount (mkLoan (- 1) 2 0) < 0
   \<and> emis (newLoanStore (- 1) 2) = []
   \<and> snd (generateEMISchedule_validated specEMIValid specLoanValid febNow febNow
         (0, mkLoan (- 1) 2 0) (newLoanStore (- 1) 2)) = Inl ValidationError
   \<and> emis (fst (generateEMISchedule_validated specEMIValid specLoanValid febNow febNow
         (0, mkLoan (- 1) 2 0) (newLoanStore (- 1) 2)))
       = [(mkEMI 0 0 0 0 0 (17 * msPerDay) Pending)\<lparr>dayNumber := 1\<rparr>,
          (mkEMI 0 0 0 0 0 (18 * msPerDay) Pending)\<lparr>dayNumber := 2\<rparr>]
   \<and> fst (generateEMISchedule febNow febNow (0, mkLoan (- 1) 2 0) (newLoanStore (- 1) 2))
       = fst (generateEMISchedule febNow febNow (0, mkLoan 0 2 0) (newLoanStore (- 1) 2))
   \<and> snd (generateEMISchedule_validated specEMIValid acceptAll febNow febNow
         (0, mkLoan (- 1) 2 0) (newLoanStore (- 1) 2))
       = Inr (fst (generateEMISchedule febNow febNow (0, mkLoan (- 1) 2 0) (newLoanStore (- 1) 2)))"
  by code_simp

section \<open>Marking an EMI as paid\<close>

lemma countDocuments_zero:
  "EMI_countDocuments (\<lambda>e. loanId e = l \<and> emi.status e \<noteq> Paid) t = 0
     \<longleftrightarrow> (\<forall>e \<in> set (emis t). loanId e = l \<longrightarrow> emi.status e = Paid)"
  by (auto simp: EMI_countDocuments_def filter_empty_conv)

lemma markPaid_emis:
  assumes "i < length (emis s)" and "emi.status (emis s ! i) \<noteq> Paid"
  shows "emis (snd (markPaid admin now now2 i s)) =
           (emis s)[i := (emis s ! i)\<lparr>emi.status := Paid, paidAt := Some now,
              paymentRequested := False, requestCanceled := False,
              paidViaRequest := paymentRequested (emis s ! i) \<or> paidViaRequest (emis s ! i),
              razorpayPaymentId := Some (admin, now2)\<rparr>]"
proof (cases "paymentRequested (emis s ! i)")
  case True
  with assms show ?thesis
    by (simp add: markPaid_def EMI_findById_def EMI_save_def Loan_findById_def Loan_save_def
        Let_def split: option.split)
next
  case False
  have "(emis s ! i)\<lparr>paidViaRequest := paidViaRequest (emis s ! i)\<rparr> = emis s ! i"
    by simp
  with False assms show ?thesis
    by (simp add: markPaid_def EMI_findById_def EMI_save_def Loan_findById_def Loan_save_def
        Let_def split: option.split)
qed

lemma markPaid_loans:
  assumes "i < length (emis s)" and "emi.status (emis s ! i) \<noteq> Paid"
    and "loanId (emis s ! i) < length (loans s)"
  shows "loans (snd (markPaid admin now now2 i s)) =
            (loans s)[loanId (emis s ! i) := (loans s ! loanId (emis s ! i))
               \<lparr>totalPaid := totalPaid (loans s ! loanId (emis s ! i)) + totalAmount (emis s ! i),
                remainingBalance := remainingBalance (loans s ! loanId (emis s ! i))
                  - (principalAmount (emis s ! i) + interestAmount (emis s ! i)),
                loan.status :=
                  (if \<forall>e \<in> set (emis (snd (markPaid admin now now2 i s))).
                        loanId e = loanId (emis s ! i) \<longrightarrow> emi.status e = Paid
                   then LoanCompleted
                   else loan.status (loans s ! loanId (emis s ! i)))\<rparr>]"
proof (cases "paymentRequested (emis s ! i)")
  case True
  with assms show ?thesis
    by (auto simp: markPaid_def EMI_findById_def EMI_save_def Loan_findById_def Loan_save_def
        Let_def countDocuments_zero)
next
  case False
  with assms show ?thesis
    by (auto simp: markPaid_def EMI_findById_def EMI_save_def Loan_findById_def Loan_save_def
        Let_def countDocuments_zero)
qed

text \<open>
  Claim C10. Marking an unpaid EMI as paid, when its loan exists: the EMI becomes paid and
  keeps its penalty and its amounts; the loan keeps its \<open>penaltyAmount\<close>, its
  \<open>totalPaid\<close> grows by the EMI's \<open>totalAmount\<close> (penalty included), its
  \<open>remainingBalance\<close> shrinks by \<open>principalAmount + interestAmount\<close> only, and its status
  becomes completed when every EMI of the loan is paid afterwards and stays as it was
  otherwise. No other EMI and no other loan changes.
\<close>

theorem markPaid_loan_totals:
  assumes "i < length (emis s)" and "emi.status (emis s ! i) \<noteq> Paid"
    and "loanId (emis s ! i) < length (loans s)"
  shows "fst (markPaid admin now now2 i s) = Ok200 ''EMI marked as paid''
       \<and> emis (snd (markPaid admin now now2 i s)) =
            (emis s)[i := (emis s ! i)\<lparr>emi.status := Paid, paidAt := Some now,
               paymentRequested := False, requestCanceled := False,
               paidViaRequest := paymentRequested (emis s ! i) \<or> paidViaRequest (emis s ! i),
               razorpayPaymentId := Some (admin, now2)\<rparr>]
       \<and> emi.penaltyAmount (emis (snd (markPaid admin now now2 i s)) ! i)
            = emi.penaltyAmount (emis s ! i)
       \<and> loans (snd (markPaid admin now now2 i s)) =
            (loans s)[loanId (emis s ! i) := (loans s ! loanId (emis s ! i))
               \<lparr>totalPaid := totalPaid (loans s ! loanId (emis s ! i)) + totalAmount (emis s ! i),
                remainingBalance := remainingBalance (loans s ! loanId (emis s ! i))
                  - (principalAmount (emis s ! i) + interestAmount (emis s ! i)),
                loan.status :=
                  (if \<forall>e \<in> set (emis (snd (markPaid admin now now2 i s))).
                        loanId e = loanId (emis s ! i) \<longrightarrow> emi.status e = Paid
                   then LoanCompleted
                   else loan.status (loans s ! loanId (emis s ! i)))\<rparr>]
       \<and> loan.penaltyAmount (loans (snd (markPaid admin now now2 i s)) ! loanId (emis s ! i))
            = loan.penaltyAmount (loans s ! loanId (emis s ! i))"
proof (intro conjI)
  show "fst (markPaid admin now now2 i s) = Ok200 ''EMI marked as paid''"
    using assms
    by (simp add: markPaid_def EMI_findById_def EMI_save_def Loan_findById_def Let_def)
  show "emis (snd (markPaid admin now now2 i s)) =
            (emis s)[i := (emis s ! i)\<lparr>emi.status := Paid, paidAt := Some now,
               paymentRequested := False, requestCanceled := False,
               paidViaRequest := paymentRequested (emis s ! i) \<or> paidViaRequest (emis s ! i),
               razorpayPaymentId := Some (admin, now2)\<rparr>]"
    by (rule markPaid_emis [OF assms(1,2)])
  then show "emi.penaltyAmount (emis (snd (markPaid admin now now2 i s)) ! i)
            = emi.penaltyAmount (emis s ! i)"
    using assms(1) by simp
  show L: "loans (snd (markPaid admin now now2 i s)) =
            (loans s)[loanId (emis s ! i) := (loans s ! loanId (emis s ! i))
               \<lparr>totalPaid := totalPaid (loans s ! loanId (emis s ! i)) + totalAmount (emis s ! i),
                remainingBalance := remainingBalance (loans s ! loanId (emis s ! i))
                  - (principalAmount (emis s ! i) + interestAmount (emis s ! i)),
                loan.status :=
                  (if \<forall>e \<in> set (emis (snd (markPaid admin now now2 i s))).
                        loanId e = loanId (emis s ! i) \<longrightarrow> emi.status e = Paid
                   then LoanCompleted
                   else loan.status (loans s ! loanId (emis s ! i)))\<rparr>]"
    by (rule markPaid_loans [OF assms])
  show "loan.penaltyAmount (loans (snd (markPaid admin now now2 i s)) ! loanId (emis s ! i))
            = loan.penaltyAmount (loans s ! loanId (emis s ! i))"
    using assms(3) by (subst L) simp
qed

theorem markPaid_loan_totals_witness:
  "0 < length (emis paidStore)
   \<and> emi.status (emis paidStore ! 0) \<noteq> Paid
   \<and> loanId (emis paidStore ! 0) < length (loans paidStore)
   \<and> emi.penaltyAmount (emis (snd (markPaid 7 febNow febNow 0 paidStore)) ! 0) = 75
   \<and> loan.penaltyAmount (loans (snd (markPaid 7 febNow febNow 0 paidStore)) ! 0) = 75
   \<and> totalPaid (loans (snd (markPaid 7 febNow febNow 0 paidStore)) ! 0) = 135
   \<and> remainingBalance (loans (snd (markPaid 7 febNow febNow 0 paidStore)) ! 0) = 1080
   \<and> loan.status (loans (snd (markPaid 7 febNow febNow 0 paidStore)) ! 0) = LoanCompleted
   \<and> 2 < length (emis paidStore)
   \<and> emi.status (emis paidStore ! 2) \<noteq> Paid
   \<and> loanId (emis paidStore ! 2) < length (loans paidStore)
   \<and> totalPaid (loans (snd (markPaid 7 febNow febNow 2 paidStore)) ! 1) = 60
   \<and> remainingBalance (loans (snd (markPaid 7 febNow febNow 2 paidStore)) ! 1) = 1140
   \<and> loan.status (loans (snd (markPaid 7 febNow febNow 2 paidStore)) ! 1) = LoanApproved"
  using markPaid_loan_totals [of 0 paidStore 7 febNow febNow]
    markPaid_loan_totals [of 2 paidStore 7 febNow febNow]
  by (simp add: paidStore_def mkEMI_def mkLoan_def markPaid_def EMI_findById_def EMI_save_def
      Loan_findById_def Loan_save_def EMI_countDocuments_def Let_def)

section \<open>The correction script\<close>

lemma corrected_overdue_same:
  assumes "emi.status e = Overdue" and "emi.penaltyAmount e = c" and "totalAmount e = t"
  shows "e\<lparr>emi.status := Overdue, emi.penaltyAmount := c, totalAmount := t\<rparr> = e"
  using assms by simp

lemma correctLoop_step:
  assumes "i < length (emis s)" and "emis s ! i = e"
  shows "correctLoop today ((i, e, Some x) # rest) s m =
           correctLoop today rest (EMI_save i (corrected today e) s) (bump today e m)"
proof -
  have same: "EMI_save i e s = s"
    using assms EMI_save_same [of i s] by simp
  show ?thesis
  proof (cases "daysOverdue today e \<le> 0")
    case True
    then show ?thesis
      by (simp add: corrected_def bump_def daysOverdue_def same Let_def)
  next
    case False
    show ?thesis
    proof (cases "emi.status e \<noteq> Overdue \<or> emi.penaltyAmount e \<noteq> duePenalty today e
        \<or> totalAmount e \<noteq> principalAmount e + interestAmount e + duePenalty today e")
      case True
      with False show ?thesis
        by (simp add: corrected_def bump_def daysOverdue_def duePenalty_def Let_def)
    next
      case ok: False
      then have "corrected today e = e"
        using False by (simp add: corrected_def)
      with False ok show ?thesis
        by (simp add: bump_def daysOverdue_def duePenalty_def Let_def same)
    qed
  qed
qed

lemma pdocsOf_Cons:
  assumes "pdocsOf s ((i, e, p) # rest)"
  shows "i < length (emis s)" and "emis s ! i = e" and "i \<notin> fst ` set rest" and "p \<noteq> None"
    and "pdocsOf (EMI_save i e' s) rest"
proof -
  from assms show "i < length (emis s)" and "emis s ! i = e" and ni: "i \<notin> fst ` set rest"
    and "p \<noteq> None"
    by (auto simp: pdocsOf_def)
  from assms ni show "pdocsOf (EMI_save i e' s) rest"
    unfolding pdocsOf_def by (force simp: EMI_save_def nth_list_update)
qed

lemma correctLoop_result:
  assumes "pdocsOf s docs"
  shows "snd (correctLoop today docs s m) = Inr (foldl (\<lambda>m d. bump today (fst (snd d)) m) m docs)
       \<and> loans (fst (correctLoop today docs s m)) = loans s
       \<and> length (emis (fst (correctLoop today docs s m))) = length (emis s)
       \<and> (\<forall>j < length (emis s). emis (fst (correctLoop today docs s m)) ! j =
            (if j \<in> fst ` set docs then corrected today (emis s ! j) else emis s ! j))"
  using assms
proof (induction docs arbitrary: s m)
  case Nil
  then show ?case by simp
next
  case (Cons doc rest)
  obtain i e p where doc: "doc = (i, e, p)" by (cases doc)
  note d = pdocsOf_Cons [OF Cons.prems [unfolded doc]]
  from d(4) obtain x where p: "p = Some x" by auto
  have step: "correctLoop today (doc # rest) s m =
                correctLoop today rest (EMI_save i (corrected today e) s) (bump today e m)"
    unfolding doc p by (rule correctLoop_step [OF d(1,2)])
  from Cons.IH [OF d(5), of "corrected today e" "bump today e m"] d(1,2,3) show ?case
    unfolding step by (auto simp: doc EMI_save_def nth_list_update)
qed

lemma objGet_update: "objGet (AList.update k v m) l = (if l = k then v else objGet m l)"
  by (simp add: objGet_def update_conv')

lemma bump_distinct: "distinct (map fst m) \<Longrightarrow> distinct (map fst (bump t e m))"
  by (simp add: bump_def Let_def distinct_update)

lemma bump_keys: "fst ` set (bump t e m) = insert (loanId e) (fst ` set m)"
proof -
  have "loanId e \<in> fst ` set m" if "map_of m (loanId e) = Some v" for v
    using that by (metis domI dom_map_of_conv_image_fst)
  then show ?thesis
    by (auto simp: bump_def Let_def dom_update split: option.splits)
qed

lemma bump_objGet:
  "objGet (bump t e m) l =
     objGet m l + (if loanId e = l \<and> 0 < daysOverdue t e then duePenalty t e else 0)"
  by (auto simp: bump_def Let_def objGet_update) (simp_all add: objGet_def split: option.splits)

lemma bumpAll_distinct: "distinct (map fst m) \<Longrightarrow> distinct (map fst (bumpAll t docs m))"
  by (induction docs arbitrary: m) (simp_all add: bump_distinct)

lemma bumpAll_keys:
  "fst ` set (bumpAll t docs m) = fst ` set m \<union> (\<lambda>d. loanId (fst (snd d))) ` set docs"
  by (induction docs arbitrary: m) (auto simp: bump_keys)

lemma bumpAll_objGet:
  "objGet (bumpAll t docs m) l =
     objGet m l + (\<Sum>d\<leftarrow>docs. if loanId (fst (snd d)) = l \<and> 0 < daysOverdue t (fst (snd d))
                               then duePenalty t (fst (snd d)) else 0)"
  by (induction docs arbitrary: m) (simp_all add: bump_objGet)

lemma fixLoans_result:
  assumes "distinct (map fst m)"
  shows "emis (fixLoans m s) = emis s
       \<and> length (loans (fixLoans m s)) = length (loans s)
       \<and> (\<forall>l < length (loans s). loans (fixLoans m s) ! l =
            (case map_of m l of
               None \<Rightarrow> loans s ! l
             | Some v \<Rightarrow> (loans s ! l)\<lparr>loan.penaltyAmount := v\<rparr>))"
  using assms
proof (induction m arbitrary: s)
  case Nil
  then show ?case by simp
next
  case (Cons kv rest)
  obtain k v where kv: "kv = (k, v)" by (cases kv)
  from Cons.prems have dist: "distinct (map fst rest)" and nk: "k \<notin> fst ` set rest"
    by (simp_all add: kv)
  then have none: "map_of rest k = None"
    by (simp add: map_of_eq_None_iff)
  let ?s1 = "Loan_save k ((loans s ! k)\<lparr>loan.penaltyAmount := v\<rparr>) s"
  have step: "fixLoans (kv # rest) s = (if k < length (loans s) then fixLoans rest ?s1
                                         else fixLoans rest s)"
  proof (cases "k < length (loans s)")
    case True
    have "?s1 = s" if "loan.penaltyAmount (loans s ! k) = v"
    proof -
      have "(loans s ! k)\<lparr>loan.penaltyAmount := v\<rparr> = loans s ! k"
        using that by simp
      then show ?thesis
        by (simp add: Loan_save_def)
    qed
    with True show ?thesis
      by (auto simp: kv Loan_findById_def)
  next
    case False
    then show ?thesis by (simp add: kv Loan_findById_def)
  qed
  show ?case
  proof (cases "k < length (loans s)")
    case True
    with Cons.IH [OF dist, of ?s1] none show ?thesis
      unfolding step by (auto simp: kv Loan_save_def nth_list_update split: option.splits)
  next
    case False
    with Cons.IH [OF dist, of s] show ?thesis
      unfolding step by (auto simp: kv split: option.splits)
  qed
qed

lemma isUnpaid_iff: "isUnpaid e \<longleftrightarrow> emi.status e \<noteq> Paid"
  by (cases "emi.status e") (simp_all add: isUnpaid_def)

lemma run_unpaidDocs:
  "run now s =
     (case correctLoop (setHours0 now) (unpaidDocs s) s [] of
        (s1, Inl err) \<Rightarrow> (s1, Some err)
      | (s1, Inr loanPenaltyMap) \<Rightarrow> (fixLoans loanPenaltyMap s1, None))"
proof -
  have "(\<lambda>(i, e). (i, e, Loan_findById (loanId e) s)) = populate s"
    by (simp add: fun_eq_iff populate_def)
  then show ?thesis
    by (simp add: run_def unpaidDocs_def isUnpaid_def [abs_def] Let_def)
qed

lemma unpaidDocs_ids: "map fst (unpaidDocs s) = map fst (EMI_find isUnpaid s)"
  by (simp add: unpaidDocs_def populate_def comp_def)

lemma unpaidDocs_emis: "map (\<lambda>d. fst (snd d)) (unpaidDocs s) = filter isUnpaid (emis s)"
  using EMI_find_snd [of isUnpaid s] by (simp add: unpaidDocs_def populate_def comp_def)

lemma unpaidDocs_pdocsOf:
  assumes "\<forall>e \<in> set (emis s). emi.status e \<noteq> Paid \<longrightarrow> loanId e < length (loans s)"
  shows "pdocsOf s (unpaidDocs s)"
proof -
  have "distinct (map fst (unpaidDocs s))"
    using EMI_find_docsOf [of s isUnpaid] by (simp add: unpaidDocs_ids docsOf_def)
  moreover have "fst d < length (emis s) \<and> emis s ! fst d = fst (snd d) \<and> snd (snd d) \<noteq> None"
    if "d \<in> set (unpaidDocs s)" for d
  proof -
    from that obtain doc where ie: "doc \<in> set (EMI_find isUnpaid s)" and d: "d = populate s doc"
      by (auto simp: unpaidDocs_def)
    from ie have i: "fst doc < length (emis s)" and e: "snd doc = emis s ! fst doc"
      and P: "isUnpaid (snd doc)"
      by (auto simp: EMI_find_set)
    from i e have "snd doc \<in> set (emis s)" by simp
    with assms P have "loanId (snd doc) < length (loans s)"
      by (simp add: isUnpaid_iff)
    with i e show ?thesis
      by (simp add: d populate_def Loan_findById_def)
  qed
  ultimately show ?thesis
    by (simp add: pdocsOf_def)
qed

lemma unpaidDocs_fst:
  "j \<in> fst ` set (unpaidDocs s) \<longleftrightarrow> j < length (emis s) \<and> emi.status (emis s ! j) \<noteq> Paid"
proof -
  have "fst ` set (unpaidDocs s) = set (map fst (unpaidDocs s))"
    by simp
  also have "\<dots> = fst ` set (EMI_find isUnpaid s)"
    by (simp add: unpaidDocs_ids)
  finally show ?thesis
    by (simp add: EMI_find_fst isUnpaid_iff)
qed

lemma unpaidDocs_sum:
  "(\<Sum>d\<leftarrow>unpaidDocs s. g (fst (snd d))) = (\<Sum>e\<leftarrow>emis s. if emi.status e \<noteq> Paid then g e else 0)"
proof -
  have "(\<Sum>d\<leftarrow>unpaidDocs s. g (fst (snd d))) = (\<Sum>e\<leftarrow>map (\<lambda>d. fst (snd d)) (unpaidDocs s). g e)"
    by (simp add: comp_def)
  also have "\<dots> = (\<Sum>e\<leftarrow>filter isUnpaid (emis s). g e)"
    by (simp only: unpaidDocs_emis)
  also have "\<dots> = (\<Sum>e\<leftarrow>emis s. if isUnpaid e then g e else 0)"
    by (rule sum_list_map_filter')
  finally show ?thesis
    by (simp only: isUnpaid_iff)
qed

lemma unpaidDocs_loans:
  "l \<in> (\<lambda>d. loanId (fst (snd d))) ` set (unpaidDocs s)
     \<longleftrightarrow> (\<exists>e \<in> set (emis s). loanId e = l \<and> emi.status e \<noteq> Paid)"
proof -
  have "(\<lambda>d. loanId (fst (snd d))) ` set (unpaidDocs s)
      = loanId ` set (map (\<lambda>d. fst (snd d)) (unpaidDocs s))"
    by (simp add: image_image)
  also have "\<dots> = loanId ` {e \<in> set (emis s). emi.status e \<noteq> Paid}"
    by (simp only: unpaidDocs_emis set_filter isUnpaid_iff)
  finally show ?thesis by auto
qed

lemma run_result:
  assumes "\<forall>e \<in> set (emis s). emi.status e \<noteq> Paid \<longrightarrow> loanId e < length (loans s)"
  shows "run now s =
           (fixLoans (bumpAll (setHours0 now) (unpaidDocs s) [])
              (fst (correctLoop (setHours0 now) (unpaidDocs s) s [])), None)"
proof -
  note R = correctLoop_result [OF unpaidDocs_pdocsOf [OF assms], of "setHours0 now" "[]"]
  obtain s1 r where c: "correctLoop (setHours0 now) (unpaidDocs s) s [] = (s1, r)"
    by (cases "correctLoop (setHours0 now) (unpaidDocs s) s []")
  with R have "r = Inr (bumpAll (setHours0 now) (unpaidDocs s) [])"
    by simp
  with c show ?thesis
    by (simp add: run_unpaidDocs)
qed

lemma map_of_objGet:
  "map_of m l = (if l \<in> fst ` set m then Some (objGet m l) else None)"
  by (auto simp: objGet_def map_of_eq_None_iff split: option.splits)

lemma run_emis:
  assumes "\<forall>e \<in> set (emis s). emi.status e \<noteq> Paid \<longrightarrow> loanId e < length (loans s)"
  shows "emis (fst (run now s)) = map (fixed (setHours0 now)) (emis s)"
proof (rule nth_equalityI)
  let ?t = "setHours0 now"
  note R = correctLoop_result [OF unpaidDocs_pdocsOf [OF assms], of ?t "[]"]
  have dist: "distinct (map fst (bumpAll ?t (unpaidDocs s) []))"
    by (rule bumpAll_distinct) simp
  have em: "emis (fst (run now s)) = emis (fst (correctLoop ?t (unpaidDocs s) s []))"
    using fixLoans_result [OF dist] by (simp add: run_result [OF assms])
  show "length (emis (fst (run now s))) = length (map (fixed ?t) (emis s))"
    using R by (simp add: em)
  fix j assume "j < length (emis (fst (run now s)))"
  then have "j < length (emis s)"
    using R by (simp add: em)
  with R show "emis (fst (run now s)) ! j = map (fixed ?t) (emis s) ! j"
    by (simp add: em unpaidDocs_fst fixed_def)
qed

lemma run_loans:
  assumes "\<forall>e \<in> set (emis s). emi.status e \<noteq> Paid \<longrightarrow> loanId e < length (loans s)"
  shows "length (loans (fst (run now s))) = length (loans s)"
    and "l < length (loans s) \<Longrightarrow> loans (fst (run now s)) ! l =
           (if \<exists>e \<in> set (emis s). loanId e = l \<and> emi.status e \<noteq> Paid
            then (loans s ! l)\<lparr>loan.penaltyAmount :=
                   (\<Sum>e\<leftarrow>emis s. if emi.status e \<noteq> Paid
                      then (if loanId e = l \<and> 0 < daysOverdue (setHours0 now) e
                            then duePenalty (setHours0 now) e else 0)
                      else 0)\<rparr>
            else loans s ! l)"
proof -
  let ?t = "setHours0 now"
  let ?M = "bumpAll ?t (unpaidDocs s) []"
  let ?s1 = "fst (correctLoop ?t (unpaidDocs s) s [])"
  note R = correctLoop_result [OF unpaidDocs_pdocsOf [OF assms], of ?t "[]"]
  have dist: "distinct (map fst ?M)"
    by (rule bumpAll_distinct) simp
  note F = fixLoans_result [OF dist, of ?s1]
  show "length (loans (fst (run now s))) = length (loans s)"
    using F R by (simp add: run_result [OF assms])
  assume l: "l < length (loans s)"
  have keys: "l \<in> fst ` set ?M \<longleftrightarrow> (\<exists>e \<in> set (emis s). loanId e = l \<and> emi.status e \<noteq> Paid)"
    by (simp add: bumpAll_keys unpaidDocs_loans)
  have "objGet ?M l = objGet [] l
          + (\<Sum>d\<leftarrow>unpaidDocs s. if loanId (fst (snd d)) = l \<and> 0 < daysOverdue ?t (fst (snd d))
                                     then duePenalty ?t (fst (snd d)) else 0)"
    by (rule bumpAll_objGet)
  also have "objGet [] l = 0"
    by (simp add: objGet_def)
  also have "(\<Sum>d\<leftarrow>unpaidDocs s. if loanId (fst (snd d)) = l \<and> 0 < daysOverdue ?t (fst (snd d))
                                     then duePenalty ?t (fst (snd d)) else 0)
      = (\<Sum>e\<leftarrow>emis s. if emi.status e \<noteq> Paid
           then (if loanId e = l \<and> 0 < daysOverdue ?t e then duePenalty ?t e else 0)
           else 0)"
    by (rule unpaidDocs_sum
        [of "\<lambda>e. if loanId e = l \<and> 0 < daysOverdue ?t e then duePenalty ?t e else 0"])
  finally have val: "objGet ?M l =
               (\<Sum>e\<leftarrow>emis s. if emi.status e \<noteq> Paid
                  then (if loanId e = l \<and> 0 < daysOverdue ?t e then duePenalty ?t e else 0)
                  else 0)"
    by simp
  from F R l have "loans (fst (run now s)) ! l =
      (case map_of ?M l of None \<Rightarrow> loans s ! l
       | Some v \<Rightarrow> (loans s ! l)\<lparr>loan.penaltyAmount := v\<rparr>)"
    by (simp add: run_result [OF assms] split: option.splits)
  then show "loans (fst (run now s)) ! l =
           (if \<exists>e \<in> set (emis s). loanId e = l \<and> emi.status e \<noteq> Paid
            then (loans s ! l)\<lparr>loan.penaltyAmount :=
                   (\<Sum>e\<leftarrow>emis s. if emi.status e \<noteq> Paid
                      then (if loanId e = l \<and> 0 < daysOverdue ?t e
                            then duePenalty ?t e else 0)
                      else 0)\<rparr>
            else loans s ! l)"
    unfolding map_of_objGet [of ?M l] keys val
    by (cases "\<exists>e \<in> set (emis s). loanId e = l \<and> emi.status e \<noteq> Paid") auto
qed

lemma fixed_fields:
  "loanId (fixed t e) = loanId e" "daysOverdue t (fixed t e) = daysOverdue t e"
  "(emi.status (fixed t e) = Paid) = (emi.status e = Paid)"
  "emi.status e \<noteq> Paid \<Longrightarrow> 0 < daysOverdue t e \<Longrightarrow> emi.penaltyAmount (fixed t e) = duePenalty t e"
  by (auto simp: fixed_def corrected_def daysOverdue_def)

lemma fixed_sum:
  "(\<Sum>e'\<leftarrow>filter (\<lambda>e'. loanId e' = l \<and> emi.status e' \<noteq> Paid \<and> 0 < daysOverdue t e')
             (map (fixed t) es). emi.penaltyAmount e')
     = (\<Sum>e\<leftarrow>es. if emi.status e \<noteq> Paid
          then (if loanId e = l \<and> 0 < daysOverdue t e then duePenalty t e else 0)
          else 0)"
proof -
  have "(\<Sum>e'\<leftarrow>filter (\<lambda>e'. loanId e' = l \<and> emi.status e' \<noteq> Paid \<and> 0 < daysOverdue t e')
             (map (fixed t) es). emi.penaltyAmount e')
      = (\<Sum>e'\<leftarrow>map (fixed t) es. if loanId e' = l \<and> emi.status e' \<noteq> Paid \<and> 0 < daysOverdue t e'
            then emi.penaltyAmount e' else 0)"
    by (rule sum_list_map_filter')
  also have "\<dots> = (\<Sum>e\<leftarrow>es. if emi.status e \<noteq> Paid
          then (if loanId e = l \<and> 0 < daysOverdue t e then duePenalty t e else 0)
          else 0)"
    unfolding map_map comp_def
    by (rule arg_cong [where f = sum_list], rule map_cong) (auto simp: fixed_fields)
  finally show ?thesis .
qed

text \<open>
  What the script does. When every unpaid EMI has its loan (otherwise the script
  stops at the first one that has not), the script ends normally and, for every EMI with status
  pending or overdue: not past due and carrying status overdue or a positive penalty, it is
  reset to pending, penalty 0, \<open>totalAmount = principalAmount + interestAmount\<close>; not past
  due, pending and without a positive penalty, it is left alone; past due, it ends with status
  overdue, \<open>penaltyAmount = ceil(principalAmount / 2) * daysOverdue\<close> and the matching total.
  Paid EMIs are not read. Each loan with at least one unpaid EMI then gets as
  \<open>penaltyAmount\<close> the sum of the penalties of its unpaid EMIs that are past due; a loan
  without unpaid EMIs is not touched.
\<close>

lemma run_effect:
  assumes "\<forall>e \<in> set (emis s). emi.status e \<noteq> Paid \<longrightarrow> loanId e < length (loans s)"
  shows "snd (run now s) = None
       \<and> length (emis (fst (run now s))) = length (emis s)
       \<and> (\<forall>i < length (emis s).
            (emi.status (emis s ! i) = Paid \<longrightarrow> emis (fst (run now s)) ! i = emis s ! i)
          \<and> (emi.status (emis s ! i) \<noteq> Paid \<and> daysOverdue (setHours0 now) (emis s ! i) \<le> 0
               \<and> (emi.status (emis s ! i) = Overdue \<or> 0 < emi.penaltyAmount (emis s ! i)) \<longrightarrow>
               emis (fst (run now s)) ! i =
                 (emis s ! i)\<lparr>emi.status := Pending, emi.penaltyAmount := 0,
                    totalAmount := principalAmount (emis s ! i) + interestAmount (emis s ! i)\<rparr>)
          \<and> (emi.status (emis s ! i) = Pending \<and> daysOverdue (setHours0 now) (emis s ! i) \<le> 0
               \<and> emi.penaltyAmount (emis s ! i) \<le> 0 \<longrightarrow>
               emis (fst (run now s)) ! i = emis s ! i)
          \<and> (emi.status (emis s ! i) \<noteq> Paid \<and> 0 < daysOverdue (setHours0 now) (emis s ! i) \<longrightarrow>
               emis (fst (run now s)) ! i =
                 (emis s ! i)\<lparr>emi.status := Overdue,
                    emi.penaltyAmount := duePenalty (setHours0 now) (emis s ! i),
                    totalAmount := principalAmount (emis s ! i) + interestAmount (emis s ! i)
                      + duePenalty (setHours0 now) (emis s ! i)\<rparr>))
       \<and> length (loans (fst (run now s))) = length (loans s)
       \<and> (\<forall>l < length (loans s).
            ((\<exists>e \<in> set (emis s). loanId e = l \<and> emi.status e \<noteq> Paid) \<longrightarrow>
               loans (fst (run now s)) ! l =
                 (loans s ! l)\<lparr>loan.penaltyAmount :=
                    (\<Sum>e'\<leftarrow>filter (\<lambda>e'. loanId e' = l \<and> emi.status e' \<noteq> Paid
                                          \<and> 0 < daysOverdue (setHours0 now) e')
                              (emis (fst (run now s))). emi.penaltyAmount e')\<rparr>)
          \<and> (\<not> (\<exists>e \<in> set (emis s). loanId e = l \<and> emi.status e \<noteq> Paid) \<longrightarrow>
               loans (fst (run now s)) ! l = loans s ! l))
       \<and> ((\<forall>e \<in> set (emis s). 0 \<le> emi.penaltyAmount e) \<longrightarrow>
            (\<forall>l. (\<Sum>e'\<leftarrow>filter (\<lambda>e'. loanId e' = l \<and> emi.status e' \<noteq> Paid
                                     \<and> 0 < daysOverdue (setHours0 now) e')
                         (emis (fst (run now s))). emi.penaltyAmount e')
                = (\<Sum>e'\<leftarrow>filter (\<lambda>e'. loanId e' = l \<and> emi.status e' \<noteq> Paid)
                         (emis (fst (run now s))). emi.penaltyAmount e')))"
proof (intro conjI allI impI)
  let ?t = "setHours0 now"
  note em = run_emis [OF assms, of now]
  show "snd (run now s) = None"
    by (simp add: run_result [OF assms])
  show "length (emis (fst (run now s))) = length (emis s)"
    by (simp add: em)
  show "length (loans (fst (run now s))) = length (loans s)"
    by (rule run_loans(1) [OF assms])
  show "emis (fst (run now s)) ! i = emis s ! i"
    if "i < length (emis s)" and "emi.status (emis s ! i) = Paid" for i
    using that by (simp add: em fixed_def)
  show "emis (fst (run now s)) ! i =
          (emis s ! i)\<lparr>emi.status := Pending, emi.penaltyAmount := 0,
             totalAmount := principalAmount (emis s ! i) + interestAmount (emis s ! i)\<rparr>"
    if "i < length (emis s)"
      and "emi.status (emis s ! i) \<noteq> Paid \<and> daysOverdue ?t (emis s ! i) \<le> 0
           \<and> (emi.status (emis s ! i) = Overdue \<or> 0 < emi.penaltyAmount (emis s ! i))" for i
    using that by (simp add: em fixed_def corrected_def)
  show "emis (fst (run now s)) ! i = emis s ! i"
    if "i < length (emis s)"
      and "emi.status (emis s ! i) = Pending \<and> daysOverdue ?t (emis s ! i) \<le> 0
           \<and> emi.penaltyAmount (emis s ! i) \<le> 0" for i
    using that by (simp add: em fixed_def corrected_def)
  show "emis (fst (run now s)) ! i =
          (emis s ! i)\<lparr>emi.status := Overdue, emi.penaltyAmount := duePenalty ?t (emis s ! i),
             totalAmount := principalAmount (emis s ! i) + interestAmount (emis s ! i)
               + duePenalty ?t (emis s ! i)\<rparr>"
    if "i < length (emis s)"
      and "emi.status (emis s ! i) \<noteq> Paid \<and> 0 < daysOverdue ?t (emis s ! i)" for i
    using that by (simp add: em fixed_def corrected_def)
  show "loans (fst (run now s)) ! l =
          (loans s ! l)\<lparr>loan.penaltyAmount :=
             (\<Sum>e'\<leftarrow>filter (\<lambda>e'. loanId e' = l \<and> emi.status e' \<noteq> Paid \<and> 0 < daysOverdue ?t e')
                       (emis (fst (run now s))). emi.penaltyAmount e')\<rparr>"
    if "l < length (loans s)" and "\<exists>e \<in> set (emis s). loanId e = l \<and> emi.status e \<noteq> Paid" for l
    using that run_loans(2) [OF assms, of l now] by (simp only: em fixed_sum if_True)
  show "loans (fst (run now s)) ! l = loans s ! l"
    if "l < length (loans s)" and "\<not> (\<exists>e \<in> set (emis s). loanId e = l \<and> emi.status e \<noteq> Paid)" for l
    using that run_loans(2) [OF assms, of l now] by (simp only: if_False)
  show "(\<Sum>e'\<leftarrow>filter (\<lambda>e'. loanId e' = l \<and> emi.status e' \<noteq> Paid \<and> 0 < daysOverdue ?t e')
                 (emis (fst (run now s))). emi.penaltyAmount e')
      = (\<Sum>e'\<leftarrow>filter (\<lambda>e'. loanId e' = l \<and> emi.status e' \<noteq> Paid)
                 (emis (fst (run now s))). emi.penaltyAmount e')"
    if nonneg: "\<forall>e \<in> set (emis s). 0 \<le> emi.penaltyAmount e" for l
  proof -
    have zero: "emi.penaltyAmount (fixed ?t e) = 0"
      if "e \<in> set (emis s)" and "emi.status e \<noteq> Paid" and "daysOverdue ?t e \<le> 0" for e
      using that nonneg by (auto simp: fixed_def corrected_def)
    have "(\<Sum>e'\<leftarrow>map (fixed ?t) (emis s).
             if loanId e' = l \<and> emi.status e' \<noteq> Paid \<and> 0 < daysOverdue ?t e'
             then emi.penaltyAmount e' else 0)
        = (\<Sum>e'\<leftarrow>map (fixed ?t) (emis s).
             if loanId e' = l \<and> emi.status e' \<noteq> Paid then emi.penaltyAmount e' else 0)"
      unfolding map_map comp_def
      by (rule arg_cong [where f = sum_list], rule map_cong)
        (auto simp: fixed_fields zero not_less)
    then show ?thesis
      by (simp only: em sum_list_map_filter')
  qed
qed

lemma run_driftStore:
  "run febNow driftStore =
     (\<lparr>emis = [mkEMI 0 50 10 25 85 (12 * msPerDay) Paid,
               mkEMI 0 50 10 75 135 (13 * msPerDay) Overdue,
               mkEMI 0 50 10 0 60 (17 * msPerDay) Pending,
               mkEMI 1 50 10 0 60 (12 * msPerDay) Paid],
       loans = [mkLoan 1000 20 75, mkLoan 1000 20 40]\<rparr>, None)"
  by code_simp

lemma run_effect_driftStore:
  "snd (run febNow driftStore) = None
   \<and> emis (fst (run febNow driftStore)) ! 0 = emis driftStore ! 0
   \<and> daysOverdue (setHours0 febNow) (emis driftStore ! 1) = 3
   \<and> emi.penaltyAmount (emis driftStore ! 1) = 50
   \<and> emi.penaltyAmount (emis (fst (run febNow driftStore)) ! 1) = 75
   \<and> totalAmount (emis (fst (run febNow driftStore)) ! 1) = 135
   \<and> daysOverdue (setHours0 febNow) (emis driftStore ! 2) = - 1
   \<and> emi.status (emis driftStore ! 2) = Overdue
   \<and> emi.status (emis (fst (run febNow driftStore)) ! 2) = Pending
   \<and> emi.penaltyAmount (emis (fst (run febNow driftStore)) ! 2) = 0
   \<and> totalAmount (emis (fst (run febNow driftStore)) ! 2) = 60
   \<and> loan.penaltyAmount (loans driftStore ! 0) = 100
   \<and> loan.penaltyAmount (loans (fst (run febNow driftStore)) ! 0) = 75
   \<and> loan.penaltyAmount (loans (fst (run febNow driftStore)) ! 1) = 40"
proof -
  have h: "\<forall>e \<in> set (emis driftStore). emi.status e \<noteq> Paid \<longrightarrow> loanId e < length (loans driftStore)"
    by (simp add: driftStore_def mkEMI_def)
  show ?thesis
    using run_effect [OF h, of febNow]
    unfolding run_driftStore
    by (simp add: driftStore_def mkEMI_def mkLoan_def daysOverdue_def setHours0_def febNow_def
        msPerDay_def)
qed

text \<open>
  Claim C6: after the correction pass the \<open>penaltyAmount\<close> of each affected loan is the
  sum of the penalties of all its EMIs, paid ones included. The script does not do that.
  Its query loads the pending and overdue EMIs only, so the total it writes leaves out the
  penalties kept on paid EMIs. In \<open>sweptPaidStore\<close> the sweep has charged 75 and 25 to two
  EMIs of the loan and 100 to the loan, and the first EMI has then been marked as paid, which
  keeps its penalty and the loan total. The script changes no EMI there, the three EMIs still
  carry 75 + 0 + 25 = 100, and the loan is set to 25.
\<close>

theorem run_loses_paid_penalty:
  "fst (markPaid 7 febNow febNow 0 (fst (processOverdueEMIs febNow febStore))) = Ok200 ''EMI marked as paid''
   \<and> map loanId (emis sweptPaidStore) = [0, 0, 0]
   \<and> map emi.status (emis sweptPaidStore) = [Paid, Pending, Overdue]
   \<and> map emi.penaltyAmount (emis sweptPaidStore) = [75, 0, 25]
   \<and> loan.penaltyAmount (loans sweptPaidStore ! 0) = 100
   \<and> snd (run febNow sweptPaidStore) = None
   \<and> emis (fst (run febNow sweptPaidStore)) = emis sweptPaidStore
   \<and> sum_list (map emi.penaltyAmount (emis (fst (run febNow sweptPaidStore)))) = 100
   \<and> loan.penaltyAmount (loans (fst (run febNow sweptPaidStore)) ! 0) = 25"
  by code_simp

section \<open>Double precision\<close>

text \<open>
  The schedule is computed above with exact quotients. This section shows that the doubles
  of JavaScript give the same two instalments: the rounding error of a quotient is far
  smaller than the distance of the exact quotient to the next integer below it, so the
  ceiling is not disturbed.
\<close>

lemma fl_literal: "fl (20 / 100) = 3602879701896397 / 2 ^ 54"
  by code_simp

lemma fl_example: "Math_ceil (fl (fl (1000 * fl (20 / 100)) / 3)) = 67"
  unfolding Math_ceil_def by code_simp

subsection \<open>The exponent of a positive number\<close>

lemma p2_nat: "0 \<le> k \<Longrightarrow> (2::rat) ^ nat k = 2 powi k"
  by (simp add: power_int_nonneg_exp)

lemma binade_bounds:
  assumes "0 < x"
  shows "2 powi binade x \<le> x" and "x < 2 powi (binade x + 1)"
proof -
  obtain p q where pq: "quotient_of x = (p, q)" by (cases "quotient_of x")
  then have x: "x = of_int p / of_int q" and q: "0 < q"
    by (simp_all add: quotient_of_div quotient_of_denom_pos)
  with assms have p: "0 < p"
    by (simp add: zero_less_divide_iff)
  define bp bq where "bp = bitlen p" and "bq = bitlen q"
  have bp1: "1 \<le> bp" and bq1: "1 \<le> bq"
    using p q bitlen_eq_zero_iff [of p] bitlen_eq_zero_iff [of q] bitlen_nonneg [of p]
      bitlen_nonneg [of q]
    by (simp_all add: bp_def bq_def)
  have "2 ^ nat (bp - 1) \<le> p" and "p < 2 ^ nat bp"
    using bitlen_bounds [OF p] by (simp_all add: bp_def)
  then have "(of_int (2 ^ nat (bp - 1)) :: rat) \<le> of_int p" and "(of_int p :: rat) < of_int (2 ^ nat bp)"
    by (simp_all only: of_int_le_iff of_int_less_iff)
  then have P: "2 powi (bp - 1) \<le> (of_int p :: rat)" "(of_int p :: rat) < 2 powi bp"
    using bp1 by (simp_all add: power_int_nonneg_exp)
  have "2 ^ nat (bq - 1) \<le> q" and "q < 2 ^ nat bq"
    using bitlen_bounds [OF q] by (simp_all add: bq_def)
  then have "(of_int (2 ^ nat (bq - 1)) :: rat) \<le> of_int q" and "(of_int q :: rat) < of_int (2 ^ nat bq)"
    by (simp_all only: of_int_le_iff of_int_less_iff)
  then have Q: "2 powi (bq - 1) \<le> (of_int q :: rat)" "(of_int q :: rat) < 2 powi bq"
    using bq1 by (simp_all add: power_int_nonneg_exp)
  have q0: "0 < (of_int q :: rat)" using q by simp
  have up: "x < 2 powi (bp - bq + 1)"
  proof -
    have "x * of_int q = of_int p" using q0 by (simp add: x)
    also have "\<dots> < 2 powi bp" by (rule P(2))
    also have "\<dots> = 2 powi (bp - bq + 1) * 2 powi (bq - 1)"
      by (simp flip: power_int_add)
    also have "\<dots> \<le> 2 powi (bp - bq + 1) * of_int q"
      using Q(1) by (simp add: mult_left_mono)
    finally show ?thesis using q0 by simp
  qed
  have lo: "2 powi (bp - bq - 1) < x"
  proof -
    have "(2::rat) powi (bp - bq - 1) * of_int q < 2 powi (bp - bq - 1) * 2 powi bq"
      using Q(2) by (simp add: mult_strict_left_mono)
    also have "\<dots> = 2 powi (bp - 1)"
      by (simp flip: power_int_add)
    also have "\<dots> \<le> of_int p" by (rule P(1))
    also have "\<dots> = x * of_int q" using q0 by (simp add: x)
    finally show ?thesis using q0 by simp
  qed
  have b: "binade x = (if 2 powi (bp - bq) \<le> x then bp - bq else bp - bq - 1)"
    by (simp add: binade_def pq bp_def bq_def Let_def)
  show "2 powi binade x \<le> x"
    using lo by (simp add: b)
  show "x < 2 powi (binade x + 1)"
    using up by (simp add: b not_le)
qed

lemma p2_less_imp:
  assumes "(2::rat) powi m < 2 powi n"
  shows "m < n"
proof (rule ccontr)
  assume "\<not> m < n"
  then have "n \<le> m" by simp
  then have "(2::rat) powi n \<le> 2 powi m"
    by (rule power_int_increasing) simp
  with assms show False by simp
qed

lemma binade_unique:
  assumes "2 powi e \<le> x" and "x < 2 powi (e + 1)"
  shows "binade x = e"
proof -
  have "0 < (2::rat) powi e" by simp
  with assms(1) have x: "0 < x" by linarith
  note b = binade_bounds [OF x]
  have "2 powi e < (2::rat) powi (binade x + 1)"
    using assms(1) b(2) by simp
  then have "e < binade x + 1"
    by (rule p2_less_imp)
  moreover have "2 powi binade x < (2::rat) powi (e + 1)"
    using assms(2) b(1) by simp
  then have "binade x < e + 1"
    by (rule p2_less_imp)
  ultimately show ?thesis by simp
qed

subsection \<open>Rounding to 53 bits\<close>

lemma roundEven_unique:
  assumes "\<bar>y - of_int m\<bar> < 1 / 2"
  shows "roundEven y = m"
proof (cases "of_int m \<le> y")
  case True
  with assms have "\<lfloor>y\<rfloor> = m"
    by (intro floor_unique) (simp_all add: abs_if split: if_splits)
  with assms True show ?thesis
    by (simp add: roundEven_def Let_def abs_if split: if_splits)
next
  case False
  with assms have "\<lfloor>y\<rfloor> = m - 1"
    by (intro floor_unique) (simp_all add: abs_if split: if_splits)
  with assms False show ?thesis
    by (simp add: roundEven_def Let_def abs_if split: if_splits)
qed

lemma roundEven_near: "\<bar>of_int (roundEven y) - y\<bar> \<le> 1 / 2"
proof -
  define f where "f = \<lfloor>y\<rfloor>"
  have "of_int f \<le> y" and "y < of_int f + 1"
    unfolding f_def by linarith+
  then show ?thesis
    unfolding roundEven_def f_def [symmetric] Let_def
    by (simp add: abs_if)
qed

lemma fl_pos:
  assumes "0 < x"
  shows "fl x = of_int (roundEven (x / 2 powi (binade x - 52))) * 2 powi (binade x - 52)"
  using assms by (simp add: fl_def Let_def)

lemma fl_error:
  assumes "0 < x"
  shows "\<bar>fl x - x\<bar> \<le> x / 2 ^ 53"
proof -
  define u :: rat where "u = 2 powi (binade x - 52)"
  have u: "0 < u" by (simp add: u_def)
  have "fl x - x = (of_int (roundEven (x / u)) - x / u) * u"
    using u by (simp add: fl_pos [OF assms] u_def [symmetric] left_diff_distrib)
  then have "\<bar>fl x - x\<bar> = \<bar>of_int (roundEven (x / u)) - x / u\<bar> * u"
    using u by (simp add: abs_mult)
  also have "\<dots> \<le> 1 / 2 * u"
    using u roundEven_near [of "x / u"] by (simp add: mult_right_mono)
  also have "\<dots> = 2 powi binade x / 2 ^ 53"
  proof -
    have "(2::rat) powi (binade x - 52) = 2 powi binade x / 2 powi 52"
      by (rule power_int_diff) simp
    then show ?thesis by (simp add: u_def)
  qed
  also have "\<dots> \<le> x / 2 ^ 53"
    using binade_bounds(1) [OF assms] by (simp add: divide_right_mono)
  finally show ?thesis .
qed

lemma fl_int:
  assumes "0 < k" and "k < 2 ^ 53"
  shows "fl (of_int k) = of_int k"
proof -
  have x: "0 < (of_int k :: rat)" using assms(1) by simp
  define e where "e = binade (of_int k)"
  have "(of_int k :: rat) < of_int (2 ^ 53)"
    using assms(2) by (simp only: of_int_less_iff)
  then have "(2::rat) powi e < 2 powi 53"
    using binade_bounds(1) [OF x] by (simp add: e_def)
  then have "e < 53"
    by (rule p2_less_imp)
  then have e: "e \<le> 52" by simp
  define M where "M = k * 2 ^ nat (52 - e)"
  have inv: "(2::rat) powi (e - 52) * 2 ^ nat (52 - e) = 1"
  proof -
    have "(2::rat) ^ nat (52 - e) = 2 powi (52 - e)"
      using e by (simp add: power_int_nonneg_exp)
    then show ?thesis by (simp flip: power_int_add)
  qed
  have "of_int k / (2::rat) powi (e - 52) = of_int M"
    using inv by (simp add: M_def field_simps)
  moreover have "roundEven (of_int M) = M"
    by (rule roundEven_unique) simp
  ultimately have "fl (of_int k) = of_int M * 2 powi (e - 52)"
    by (simp add: fl_pos [OF x] e_def [symmetric])
  also have "\<dots> = of_int k * ((2::rat) powi (e - 52) * 2 ^ nat (52 - e))"
    by (simp add: M_def)
  finally show ?thesis by (simp only: inv mult_1_right)
qed

text \<open>
  The literal \<^verbatim>\<open>0.20\<close> is slightly above one fifth. For an amount \<open>5 * z\<close> the product with
  it is \<open>z * (1 + 2 ^ - 54)\<close>, which rounds back to \<open>z\<close>.
\<close>

lemma fl_scaled:
  assumes "0 < z" and "z < 2 ^ 50"
  shows "fl (of_int z * (1 + 1 / 2 ^ 54)) = of_int z"
proof -
  define x :: rat where "x = of_int z * (1 + 1 / 2 ^ 54)"
  have z0: "0 < (of_int z :: rat)" using assms(1) by simp
  define e where "e = binade (of_int z)"
  note b = binade_bounds [OF z0, folded e_def]
  have "(of_int z :: rat) < of_int (2 ^ 50)"
    using assms(2) by (simp only: of_int_less_iff)
  then have "(2::rat) powi e < 2 powi 50"
    using b(1) by simp
  then have e50: "e < 50" by (rule p2_less_imp)
  have "(2::rat) powi 0 < 2 powi (e + 1)"
  proof -
    have "(1::rat) \<le> of_int z" using assms(1) by simp
    with b(2) show ?thesis by simp
  qed
  then have e0: "0 \<le> e" using p2_less_imp [of 0 "e + 1"] by simp
  have zlt: "z + 1 \<le> 2 ^ nat (e + 1)"
  proof -
    have "(of_int z :: rat) < of_int (2 ^ nat (e + 1))"
      using b(2) e0 by (simp add: power_int_nonneg_exp)
    then have "z < 2 ^ nat (e + 1)" by (simp only: of_int_less_iff)
    then show ?thesis by simp
  qed
  have small: "of_int z / (2::rat) ^ 54 < 1"
  proof -
    have "(of_int z :: rat) < of_int (2 ^ 50)"
      using assms(2) by (simp only: of_int_less_iff)
    then show ?thesis by simp
  qed
  have xz: "x = of_int z + of_int z / 2 ^ 54"
    by (simp add: x_def distrib_left)
  have bx: "binade x = e"
  proof (rule binade_unique)
    show "2 powi e \<le> x"
      using b(1) z0 by (simp add: xz)
    have "x < of_int z + 1" using small by (simp add: xz)
    also have "\<dots> = (of_int (z + 1) :: rat)" by simp
    also have "\<dots> \<le> of_int (2 ^ nat (e + 1))"
      using zlt by (simp only: of_int_le_iff)
    also have "\<dots> = 2 powi (e + 1)"
      using e0 by (simp add: power_int_nonneg_exp)
    finally show "x < 2 powi (e + 1)" .
  qed
  define u :: rat where "u = 2 powi (e - 52)"
  have u: "0 < u" by (simp add: u_def)
  define M where "M = z * 2 ^ nat (52 - e)"
  have inv: "u * 2 ^ nat (52 - e) = 1"
  proof -
    have "(2::rat) ^ nat (52 - e) = 2 powi (52 - e)"
      using e50 by (simp add: power_int_nonneg_exp)
    then show ?thesis by (simp add: u_def flip: power_int_add)
  qed
  then have uinv: "1 / u = 2 ^ nat (52 - e)"
    using u by (simp add: field_simps)
  have Mu: "of_int M * u = of_int z"
    using inv by (simp add: M_def mult.assoc mult.commute [of u])
  have delta: "x / u - of_int M = of_int z / 2 ^ 54 / u"
  proof -
    have "of_int M = of_int z / u"
      using Mu u by (simp add: field_simps)
    then show ?thesis by (simp add: xz add_divide_distrib)
  qed
  have "of_int z / 2 ^ 54 / u < 1 / 2"
  proof -
    have "of_int z / 2 ^ 54 / u = of_int z * (2 powi (52 - e) / 2 powi 54)"
      using e50 by (simp add: uinv [symmetric] power_int_nonneg_exp)
    also have "2 powi (52 - e) / (2::rat) powi 54 = 2 powi (- e - 2)"
    proof -
      have "(2::rat) powi ((52 - e) - 54) = 2 powi (52 - e) / 2 powi 54"
        by (rule power_int_diff) simp
      moreover have "(52 - e) - 54 = - e - 2" by simp
      ultimately show ?thesis by (simp only:)
    qed
    also have "of_int z * 2 powi (- e - 2) < 2 powi (e + 1) * (2::rat) powi (- e - 2)"
      using b(2) by (simp add: mult_strict_right_mono)
    also have "\<dots> = 1 / 2"
    proof -
      have "(2::rat) powi ((e + 1) + (- e - 2)) = 2 powi (e + 1) * 2 powi (- e - 2)"
        by (rule power_int_add) simp
      moreover have "(e + 1) + (- e - 2) = - 1" by simp
      ultimately have "2 powi (e + 1) * (2::rat) powi (- e - 2) = 2 powi (- 1)"
        by (simp only:)
      then show ?thesis by (simp add: power_int_minus)
    qed
    finally show ?thesis .
  qed
  moreover have "0 \<le> of_int z / 2 ^ 54 / u"
    using z0 u by simp
  ultimately have "\<bar>x / u - of_int M\<bar> < 1 / 2"
    by (simp add: delta)
  then have "roundEven (x / u) = M"
    by (rule roundEven_unique)
  moreover have "0 < x" using z0 by (simp add: x_def zero_less_mult_iff)
  ultimately have "fl x = of_int M * u"
    by (simp add: fl_pos bx u_def)
  then show ?thesis
    by (simp add: Mu x_def)
qed

subsection \<open>The ceiling of a rounded quotient\<close>

lemma fl_020: "fl (20 / 100) = 1 / 5 * (1 + 1 / 2 ^ 54)"
  by code_simp

lemma ceil_gap:
  assumes "0 < m" and "\<not> m dvd a"
  shows "of_int \<lceil>of_int a / of_int m :: rat\<rceil> - 1 + 1 / of_int m \<le> (of_int a / of_int m :: rat)"
    and "(of_int a / of_int m :: rat) \<le> of_int \<lceil>of_int a / of_int m :: rat\<rceil> - 1 / of_int m"
proof -
  define d r where "d = a div m" and "r = a mod m"
  have a: "a = m * d + r" by (simp add: d_def r_def)
  have "r \<noteq> 0" using assms(2) by (simp add: r_def dvd_eq_mod_eq_0)
  moreover have "0 \<le> r" and "r < m" using assms(1) by (simp_all add: r_def)
  ultimately have r: "1 \<le> r" "r \<le> m - 1" by simp_all
  have m0: "0 < (of_int m :: rat)" using assms(1) by simp
  have x: "(of_int a / of_int m :: rat) = of_int d + of_int r / of_int m"
    using m0 by (simp add: a field_simps)
  have r1: "1 / of_int m \<le> (of_int r / of_int m :: rat)"
    using r(1) m0 by (simp add: divide_right_mono)
  have r2: "(of_int r / of_int m :: rat) \<le> 1 - 1 / of_int m"
  proof -
    have "(of_int r :: rat) \<le> of_int (m - 1)" using r(2) by (simp only: of_int_le_iff)
    then have "(of_int r / of_int m :: rat) \<le> of_int (m - 1) / of_int m"
      using m0 by (simp add: divide_right_mono)
    also have "\<dots> = 1 - 1 / of_int m" using m0 by (simp add: field_simps)
    finally show ?thesis .
  qed
  have pos: "0 < 1 / (of_int m :: rat)" using m0 by simp
  have c: "\<lceil>of_int a / of_int m :: rat\<rceil> = d + 1"
  proof (rule ceiling_unique)
    have d1: "(of_int (d + 1) :: rat) = of_int d + 1" by simp
    show "of_int (d + 1) - 1 < (of_int a / of_int m :: rat)"
      using r1 pos unfolding x d1 by linarith
    show "(of_int a / of_int m :: rat) \<le> of_int (d + 1)"
      using r2 pos unfolding x d1 by linarith
  qed
  have "(of_int (d + 1) :: rat) - 1 + 1 / of_int m \<le> of_int d + of_int r / of_int m"
    using r1 by simp
  then show "of_int \<lceil>of_int a / of_int m :: rat\<rceil> - 1 + 1 / of_int m
      \<le> (of_int a / of_int m :: rat)"
    unfolding c by (simp only: x)
  have "(of_int d + of_int r / of_int m :: rat) \<le> of_int (d + 1) - 1 / of_int m"
    using r2 by simp
  then show "(of_int a / of_int m :: rat) \<le> of_int \<lceil>of_int a / of_int m :: rat\<rceil> - 1 / of_int m"
    unfolding c by (simp only: x)
qed

lemma ceil_perturb:
  fixes x y d :: rat
  assumes "of_int c - 1 + d \<le> x" and "x \<le> of_int c - d" and "\<bar>y - x\<bar> < d"
  shows "\<lceil>y\<rceil> = c"
  using assms by (intro ceiling_unique) linarith+

lemma ceil_fl_div:
  assumes "0 \<le> a" and "a < 2 ^ 53" and "1 \<le> n"
  shows "\<lceil>fl (of_int a / of_int n)\<rceil> = \<lceil>of_int a / of_int n :: rat\<rceil>"
proof (cases "a = 0")
  case True
  then show ?thesis by (simp add: fl_def)
next
  case False
  with assms(1) have a: "0 < a" by simp
  have n: "0 < n" using assms(3) by simp
  have n0: "0 < (of_int n :: rat)" using n by simp
  have a0: "0 < (of_int a :: rat)" using a by simp
  show ?thesis
  proof (cases "n dvd a")
    case True
    then obtain k where k: "a = n * k" by (auto simp: dvd_def)
    with a n have k0: "0 < k" by (simp add: zero_less_mult_iff)
    have "k \<le> n * k" using n k0 by (simp add: mult_le_cancel_right1)
    with k assms(2) have "k < 2 ^ 53" by simp
    moreover have "(of_int a / of_int n :: rat) = of_int k"
      using n0 by (simp add: k)
    ultimately show ?thesis
      using fl_int [OF k0] by simp
  next
    case False
    define x :: rat where "x = of_int a / of_int n"
    have x: "0 < x" using a0 n0 by (simp add: x_def)
    have "\<bar>fl x - x\<bar> \<le> x / 2 ^ 53" by (rule fl_error [OF x])
    also have "\<dots> = (of_int a / 2 ^ 53) / of_int n"
      by (simp add: x_def)
    also have "\<dots> < 1 / of_int n"
    proof -
      have "(of_int a :: rat) < of_int (2 ^ 53)"
        using assms(2) by (simp only: of_int_less_iff)
      then have "(of_int a / 2 ^ 53 :: rat) < 1" by simp
      then show ?thesis using n0 by (rule divide_strict_right_mono)
    qed
    finally have "\<bar>fl x - x\<bar> < 1 / of_int n" .
    from ceil_perturb [OF ceil_gap [OF n False, folded x_def] this]
    show ?thesis by (simp add: x_def)
  qed
qed

lemma interest_error:
  fixes A N t res :: rat
  assumes A: "0 < A" "A < 2 ^ 50" and N: "0 < N"
    and t: "\<bar>t - A * (1 / 5 * (1 + 1 / 2 ^ 54))\<bar> \<le> A * (1 / 5 * (1 + 1 / 2 ^ 54)) / 2 ^ 53"
    and res: "0 < t \<longrightarrow> \<bar>res - t / N\<bar> \<le> t / N / 2 ^ 53"
  shows "\<bar>res - A / (5 * N)\<bar> < 1 / (5 * N)"
proof -
  define eps :: rat where "eps = 1 / 2 ^ 53"
  define w v where "w = A * eps" and "v = w * eps"
  have eps: "0 < eps" "eps \<le> 1 / 8"
    by (simp_all add: eps_def)
  have w0: "0 < w" using A(1) eps(1) by (simp add: w_def)
  have w8: "w < 1 / 8"
  proof -
    have "A * eps < 2 ^ 50 * eps"
      using A(2) eps(1) by (simp add: mult_strict_right_mono)
    also have "\<dots> = 1 / 8" by (simp add: eps_def)
    finally show ?thesis by (simp add: w_def)
  qed
  have wA: "w \<le> A / 8"
    using mult_left_mono [OF eps(2), of A] A(1) by (simp add: w_def)
  have v0: "0 \<le> v" using w0 eps(1) by (simp add: v_def)
  have vw: "v \<le> w"
    using mult_left_mono [of eps 1 w] eps w0 by (simp add: v_def)
  have X1: "A * (1 / 5 * (1 + 1 / 2 ^ 54)) = A / 5 + w / 10"
    by (simp add: w_def eps_def field_simps)
  have X1e: "A * (1 / 5 * (1 + 1 / 2 ^ 54)) / 2 ^ 53 = w / 5 + v / 10"
  proof -
    have "A * (1 / 5 * (1 + 1 / 2 ^ 54)) / 2 ^ 53 = (A / 5 + w / 10) * eps"
      by (simp only: X1) (simp add: eps_def)
    also have "\<dots> = w / 5 + v / 10"
      by (simp add: w_def v_def algebra_simps)
    finally show ?thesis .
  qed
  have t1: "\<bar>t - A / 5\<bar> \<le> 2 / 5 * w"
    using t vw v0 unfolding X1e unfolding X1 by linarith
  have tpos: "0 < t"
    using t1 wA A(1) by linarith
  have tup: "t \<le> A / 5 + 2 / 5 * w"
    using t1 by linarith
  have te: "t * eps \<le> 3 / 5 * w"
  proof -
    have "t * eps \<le> (A / 5 + 2 / 5 * w) * eps"
      using tup eps(1) by (simp add: mult_right_mono)
    also have "\<dots> = w / 5 + 2 / 5 * v"
      by (simp add: w_def v_def algebra_simps)
    finally show ?thesis using vw by linarith
  qed
  have F: "\<bar>res - t / N\<bar> \<le> t / N * eps"
    using res tpos by (simp add: eps_def)
  have "\<bar>res - t / N\<bar> * N \<le> t / N * eps * N"
    by (rule mult_right_mono [OF F]) (use N in simp)
  moreover have "\<bar>res - t / N\<bar> * N = \<bar>N * res - t\<bar>"
  proof -
    have "(res - t / N) * N = N * res - t" using N by (simp add: field_simps)
    then have "\<bar>res - t / N\<bar> * \<bar>N\<bar> = \<bar>N * res - t\<bar>"
      by (simp only: abs_mult [symmetric])
    then show ?thesis using N by simp
  qed
  moreover have "t / N * eps * N = t * eps" using N by simp
  ultimately have r1: "\<bar>N * res - t\<bar> \<le> t * eps" by simp
  have "\<bar>N * res - A / 5\<bar> < 1 / 5"
    using r1 te t1 w8 by linarith
  moreover have "\<bar>res - A / (5 * N)\<bar> * N = \<bar>N * res - A / 5\<bar>"
  proof -
    have "(res - A / (5 * N)) * N = N * res - A / 5" using N by (simp add: field_simps)
    then have "\<bar>res - A / (5 * N)\<bar> * \<bar>N\<bar> = \<bar>N * res - A / 5\<bar>"
      by (simp only: abs_mult [symmetric])
    then show ?thesis using N by simp
  qed
  ultimately have "\<bar>res - A / (5 * N)\<bar> * N < 1 / 5" by simp
  then have "\<bar>res - A / (5 * N)\<bar> < 1 / 5 / N"
    using N by (simp add: pos_less_divide_eq)
  then show ?thesis by simp
qed

lemma ceil_fl_interest:
  assumes "0 \<le> a" and "a < 2 ^ 50" and "1 \<le> n"
  shows "\<lceil>fl (fl (of_int a * fl (20 / 100)) / of_int n)\<rceil>
           = \<lceil>of_int a * (20 / 100) / of_int n :: rat\<rceil>"
proof (cases "a = 0")
  case True
  then show ?thesis by (simp add: fl_def)
next
  case False
  with assms(1) have a: "0 < a" by simp
  have n: "0 < n" using assms(3) by simp
  have n0: "0 < (of_int n :: rat)" using n by simp
  have a0: "0 < (of_int a :: rat)" using a by simp
  have exact: "(of_int a * (20 / 100) / of_int n :: rat) = of_int a / of_int (5 * n)"
    by simp
  show ?thesis
  proof (cases "5 dvd a")
    case True
    then obtain z where z: "a = 5 * z" by (auto simp: dvd_def)
    with a have z0: "0 < z" by simp
    from z assms(2) have z50: "z < 2 ^ 50" by simp
    then have z53: "z < 2 ^ 53" by simp
    have "of_int a * fl (20 / 100) = (of_int z :: rat) * (1 + 1 / 2 ^ 54)"
      by (simp only: fl_020) (simp add: z)
    then have "fl (of_int a * fl (20 / 100)) = of_int z"
      using fl_scaled [OF z0 z50] by (simp only:)
    moreover have "(of_int a * (20 / 100) / of_int n :: rat) = of_int z / of_int n"
      by (simp add: z)
    moreover have "\<lceil>fl (of_int z / of_int n)\<rceil> = \<lceil>of_int z / of_int n :: rat\<rceil>"
      using z0 z53 assms(3) by (intro ceil_fl_div) simp_all
    ultimately show ?thesis
      by (simp only:)
  next
    case False
    have nd: "\<not> 5 * n dvd a"
    proof
      assume "5 * n dvd a"
      then have "5 dvd a" by (rule dvd_mult_left)
      with False show False ..
    qed
    have n5: "0 < 5 * n" using n by simp
    define X1 :: rat where "X1 = of_int a * fl (20 / 100)"
    have X1: "X1 = of_int a * (1 / 5 * (1 + 1 / 2 ^ 54))"
      by (simp only: X1_def fl_020)
    have X1pos: "0 < X1"
      using a0 unfolding X1 by (simp add: zero_less_mult_iff)
    define t where "t = fl X1"
    define res where "res = fl (t / of_int n)"
    have te: "\<bar>t - of_int a * (1 / 5 * (1 + 1 / 2 ^ 54))\<bar>
                \<le> of_int a * (1 / 5 * (1 + 1 / 2 ^ 54)) / 2 ^ 53"
      using fl_error [OF X1pos] unfolding t_def X1 .
    have re: "0 < t \<longrightarrow> \<bar>res - t / of_int n\<bar> \<le> t / of_int n / 2 ^ 53"
    proof
      assume "0 < t"
      then have "0 < t / of_int n" using n0 by simp
      from fl_error [OF this] show "\<bar>res - t / of_int n\<bar> \<le> t / of_int n / 2 ^ 53"
        by (simp only: res_def)
    qed
    have a50: "(of_int a :: rat) < 2 ^ 50"
    proof -
      have "(of_int a :: rat) < of_int (2 ^ 50)"
        using assms(2) by (simp only: of_int_less_iff)
      then show ?thesis by simp
    qed
    have "\<bar>res - of_int a / (5 * of_int n)\<bar> < 1 / (5 * of_int n)"
      by (rule interest_error [OF a0 a50 n0 te re])
    then have near: "\<bar>res - of_int a / of_int (5 * n)\<bar> < 1 / (of_int (5 * n) :: rat)"
      by simp
    have "\<lceil>res\<rceil> = \<lceil>of_int a / of_int (5 * n) :: rat\<rceil>"
      by (rule ceil_perturb [OF ceil_gap [OF n5 nd] near])
    then show ?thesis
      by (simp only: exact res_def t_def X1_def)
  qed
qed

text \<open>
  The instalments of the schedule are those of the doubles, for every amount from 0 up to
  \<open>2 ^ 50\<close> and every positive number of days.
\<close>

lemma dailyPrincipal_double_exact:
  assumes "0 \<le> a" and "a < 2 ^ 50" and "1 \<le> n"
  shows "dailyPrincipal_double a n = Math_ceil (of_int a / of_int n)"
proof -
  from assms(2) have "a < 2 ^ 53" by simp
  from ceil_fl_div [OF assms(1) this assms(3)] show ?thesis
    by (simp only: dailyPrincipal_double_def Math_ceil_def)
qed

lemma dailyInterest_double_exact:
  assumes "0 \<le> a" and "a < 2 ^ 50" and "1 \<le> n"
  shows "dailyInterest_double a n = Math_ceil (of_int a * (20 / 100) / of_int n)"
  using ceil_fl_interest [OF assms]
  by (simp only: dailyInterest_double_def Math_ceil_def)

lemma generateEMISchedule_double:
  assumes "0 \<le> amount loan0" and "amount loan0 < 2 ^ 50" and "1 \<le> totalDays loan0"
  shows "fst (generateEMISchedule now now2 (lid, loan0) s) =
           map (newEMI lid (loan.userId loan0)
                  (dailyPrincipal_double (amount loan0) (totalDays loan0))
                  (dailyInterest_double (amount loan0) (totalDays loan0))
                  (setHours0 (addDays now 1)))
             [1..totalDays loan0]"
  by (simp only: generate_emis dailyPrincipal_double_exact [OF assms]
        dailyInterest_double_exact [OF assms])

end
